theory Spec2Isabelle
  imports Main "HOL-Library.AList"
begin

section \<open>PolyPlayer: queues, scheduler tick, upstream client and URL translation\<close>

text \<open>
  A shallow embedding of \<^verbatim>\<open>src/__init__.py\<close>. Python objects become records, the
  \<^verbatim>\<open>players\<close> dict becomes an association list (a dict keeps insertion order and has
  unique keys), exceptions become values of the type \<open>error\<close>, and every call that
  leaves the process (voice transport, HTTP) is answered by an oracle record and written to
  a log, so that "no network round trip" is a statement about the log.
\<close>

subsection \<open>Exceptions\<close>

text \<open>
  \<^verbatim>\<open>BadResponseError\<close> is the only exception class the module declares. The others are
  what the Python built-ins raise (\<^verbatim>\<open>max\<close> of an empty iterable, a missing dict key,
  an index out of range, \<^verbatim>\<open>>\<close> between a \<^verbatim>\<open>str\<close> and an \<^verbatim>\<open>int\<close>) and what the voice
  transport may raise.
\<close>

datatype error =
    BadResponseError string
  | ValueError string
  | KeyError string
  | IndexError
  | TypeError
  | TransportError string

subsection \<open>Python list slices\<close>

text \<open>
  \<^verbatim>\<open>xs[i:]\<close> and \<^verbatim>\<open>xs[:i]\<close> for an int \<open>i\<close>: a negative bound counts from the end,
  and every bound is clamped to \<open>0 .. len(xs)\<close>; a slice never raises.
\<close>

definition slice_bound :: "nat \<Rightarrow> int \<Rightarrow> nat" where
  "slice_bound n i = (if i < 0 then nat (max 0 (int n + i)) else min n (nat i))"

definition slice_from :: "'a list \<Rightarrow> int \<Rightarrow> 'a list" where
  "slice_from xs i = drop (slice_bound (length xs) i) xs"

definition slice_upto :: "'a list \<Rightarrow> int \<Rightarrow> 'a list" where
  "slice_upto xs i = take (slice_bound (length xs) i) xs"

subsection \<open>VideoInfo, ChannelPlayer and the registry\<close>

type_synonym ChannelID = int

record 'd VideoInfo =
  data :: 'd
  audio_url :: string
  input_url :: string
  yt_url :: string

text \<open>The \<^verbatim>\<open>connection\<close> of a player is a handle into the voice transport.\<close>

record 'd ChannelPlayer =
  connection :: nat
  queue :: "'d VideoInfo list"
  now_playing :: "'d VideoInfo option"
  loop :: bool

type_synonym 'd registry = "(ChannelID \<times> 'd ChannelPlayer) list"

subsection \<open>The voice transport\<close>

text \<open>
  What the transport answers during one tick, per connection handle: the two status
  queries, and whether \<^verbatim>\<open>disconnect()\<close> or \<^verbatim>\<open>play(...)\<close> raises. The calls the
  scheduler makes are collected as \<open>transport_call\<close>s, in order.
\<close>

record transport =
  is_playing :: "nat \<Rightarrow> bool"
  is_paused :: "nat \<Rightarrow> bool"
  disconnect_raises :: "nat \<Rightarrow> error option"
  play_raises :: "nat \<Rightarrow> string \<Rightarrow> error option"

datatype transport_call =
    Disconnect nat
  | Play nat string string

definition before_options :: string where
  "before_options = ''-reconnect 1 -reconnect_streamed 1 -reconnect_delay_max 3''"

subsection \<open>PolyPlayer.play_queue\<close>

text \<open>
  The body of the \<^verbatim>\<open>for\<close> loop for one \<open>(guild_id, player)\<close> of the snapshot, on the
  live registry \<open>ps\<close>. The player object of the snapshot is the object the registry holds,
  so mutating it is \<open>map_entry\<close> on the registry. The result is the registry, the
  transport calls made, and the exception that left the body, if any. What was mutated
  before an exception stays mutated.
\<close>

definition play_queue_body ::
  "transport \<Rightarrow> ChannelID \<Rightarrow> 'd ChannelPlayer \<Rightarrow> 'd registry
     \<Rightarrow> 'd registry \<times> transport_call list \<times> error option" where
  "play_queue_body tr guild_id player ps =
     (if is_playing tr (connection player) \<or> is_paused tr (connection player) then
        (ps, [], None)
      else
        (case queue player of
           [] \<Rightarrow>
             (case disconnect_raises tr (connection player) of
                Some e \<Rightarrow> (ps, [Disconnect (connection player)], Some e)
              | None \<Rightarrow>
                  (if guild_id \<in> fst ` set ps then
                     (AList.delete guild_id ps, [Disconnect (connection player)], None)
                   else
                     (ps, [Disconnect (connection player)], Some (KeyError ''guild_id''))))
         | video_info # popped \<Rightarrow>
             (let player' = player
                    \<lparr>queue := (if loop player then popped @ [video_info] else popped),
                     now_playing := Some video_info\<rparr>
              in (AList.map_entry guild_id (\<lambda>_. player') ps,
                  [Play (connection player) (audio_url video_info) before_options],
                  play_raises tr (connection player) (audio_url video_info)))))"

text \<open>
  The \<^verbatim>\<open>for\<close> loop over the snapshot. There is no \<^verbatim>\<open>try\<close> in the source: an exception
  leaves the loop at once.
\<close>

fun play_queue_loop ::
  "transport \<Rightarrow> 'd registry \<Rightarrow> 'd registry
     \<Rightarrow> 'd registry \<times> transport_call list \<times> error option" where
  "play_queue_loop tr [] ps = (ps, [], None)"
| "play_queue_loop tr ((guild_id, player) # rest) ps =
     (case play_queue_body tr guild_id player ps of
        (ps', calls, Some e) \<Rightarrow> (ps', calls, Some e)
      | (ps', calls, None) \<Rightarrow>
          (case play_queue_loop tr rest ps' of
             (ps'', calls', r) \<Rightarrow> (ps'', calls @ calls', r)))"

text \<open>One tick: the snapshot \<^verbatim>\<open>dict(self.players)\<close> is the registry as the tick starts.\<close>

definition play_queue ::
  "transport \<Rightarrow> 'd registry \<Rightarrow> 'd registry \<times> transport_call list \<times> error option" where
  "play_queue tr ps = play_queue_loop tr ps ps"

subsection \<open>PolyPlayer.skip\<close>

text \<open>
  The replies of the command: \<open>MustBeInVoice\<close> is "You must be in a voice channel to use
  this command", \<open>NothingPlaying\<close> is "Nothing is currently playing" (both ephemeral),
  \<open>Skipped n\<close> is "Skipped n songs".
\<close>

datatype reply = MustBeInVoice | NothingPlaying | Skipped int

text \<open>
  \<open>voice_channel\<close> is \<^verbatim>\<open>ctx.author.voice.channel.id\<close>, \<open>None\<close> when the first guard of
  the command fails. The queue is reassigned to \<^verbatim>\<open>queue[steps:]\<close> first; the slice
  \<^verbatim>\<open>queue[:steps]\<close> of the \<^verbatim>\<open>extend\<close> is then taken from the reassigned queue.
\<close>

definition skip :: "ChannelID option \<Rightarrow> int \<Rightarrow> 'd registry \<Rightarrow> 'd registry \<times> reply" where
  "skip voice_channel steps ps =
     (case voice_channel of
        None \<Rightarrow> (ps, MustBeInVoice)
      | Some channel_id \<Rightarrow>
          (case map_of ps channel_id of
             None \<Rightarrow> (ps, NothingPlaying)
           | Some player \<Rightarrow>
               (if queue player = [] then (ps, NothingPlaying)
                else
                  (let q = slice_from (queue player) steps;
                       q' = (if loop player then q @ slice_upto q steps else q)
                   in (AList.map_entry channel_id (\<lambda>p. p\<lparr>queue := q'\<rparr>) ps,
                       Skipped steps)))))"

subsection \<open>HTTP: requests, responses and the upstream oracles\<close>

text \<open>
  A request as it goes on the wire: the URL, the query parameters and the headers of a GET,
  the URL and the form fields of a POST. Every request the code sends is appended to
  \<open>requests\<close> of the \<open>world\<close>; a call that sends nothing leaves the list as it was.
\<close>

datatype request =
    GET string "(string \<times> string) list" "(string \<times> string) list"
  | POST string "(string \<times> string) list"

text \<open>
  The fields of an \<^verbatim>\<open>aiohttp\<close> response that the code reads; \<^verbatim>\<open>response.ok\<close> is
  \<^verbatim>\<open>status < 400\<close>.
\<close>

record 'j response =
  status :: int
  reason :: string
  url :: string
  json :: 'j

definition ok :: "('j, 'm) response_scheme \<Rightarrow> bool" where
  "ok r = (status r < 400)"

text \<open>
  JSON objects are records of the keys the code reads. An optional key is an \<open>option\<close>;
  \<^verbatim>\<open>data.get("error")\<close> of a video is \<open>None\<close> when the key is absent or null. The value
  under \<^verbatim>\<open>bitrate\<close> is whatever the JSON holds, a number or a string (the upstream API
  sends the bitrate as a string of digits).
\<close>

datatype jscalar = JInt int | JStr string

record adaptive_format =
  format_type :: string
  bitrate :: jscalar
  itag :: string

record video =
  error :: "string option"
  videoId :: string
  title :: string
  adaptiveFormats :: "adaptive_format list"

text \<open>A track: each artist object is represented by its \<^verbatim>\<open>name\<close>.\<close>

record track =
  name :: string
  artists :: "string list"

record token_json =
  token_error :: "string option"
  access_token :: "string option"
  expires_in :: "int option"

text \<open>
  What the outside world answers. Each oracle takes the number of requests sent before,
  so that the same request can be answered differently the second time. A search answers
  with the list of hits, each represented by its \<^verbatim>\<open>videoId\<close>. \<open>now\<close> is the clock:
  its argument counts the earlier calls of \<^verbatim>\<open>datetime.datetime.now()\<close>, its value is in
  microseconds.
\<close>

record upstream =
  videos :: "nat \<Rightarrow> string \<Rightarrow> video response"
  search :: "nat \<Rightarrow> string \<Rightarrow> string list response"
  latest_version :: "nat \<Rightarrow> string \<Rightarrow> string \<Rightarrow> unit response"
  tracks :: "nat \<Rightarrow> string \<Rightarrow> string \<Rightarrow> track response"
  token :: "nat \<Rightarrow> string \<Rightarrow> string \<Rightarrow> token_json response"
  now :: "nat \<Rightarrow> int"

text \<open>
  The mutable state of the \<^verbatim>\<open>Translator\<close> (\<^verbatim>\<open>_spotify_token\<close>,
  \<^verbatim>\<open>_spotify_token_expires_at\<close>) together with the request log and the number of clock
  readings so far.
\<close>

record world =
  spotify_token :: "string option"
  spotify_token_expires_at :: "int option"
  requests :: "request list"
  clock_reads :: nat

record settings =
  client_id :: string
  client_secret :: string

definition send :: "request \<Rightarrow> world \<Rightarrow> world" where
  "send rq w = w\<lparr>requests := requests w @ [rq]\<rparr>"

subsection \<open>Invidious.get_video\<close>

text \<open>\<^verbatim>\<open>if error := data.get("error")\<close>: the key is there and its string is not empty.\<close>

definition truthy :: "string option \<Rightarrow> bool" where
  "truthy v = (case v of None \<Rightarrow> False | Some s \<Rightarrow> s \<noteq> [])"

definition video_request :: "string \<Rightarrow> string \<Rightarrow> request" where
  "video_request host_url video_id = GET (host_url @ ''/api/v1/videos/'' @ video_id) [] []"

definition inner :: "upstream \<Rightarrow> string \<Rightarrow> string \<Rightarrow> world \<Rightarrow> (error + video) \<times> world" where
  "inner up host_url video_id w =
     (let data = json (videos up (length (requests w)) video_id);
          w' = send (video_request host_url video_id) w
      in if truthy (error data)
         then (Inl (BadResponseError (''Error fetching video: '' @ the (error data))), w')
         else (Inr data, w'))"

text \<open>\<^verbatim>\<open>try: return await inner()  except BadResponseError: return await inner()\<close>\<close>

definition get_video :: "upstream \<Rightarrow> string \<Rightarrow> string \<Rightarrow> world \<Rightarrow> (error + video) \<times> world" where
  "get_video up host_url video_id w =
     (case inner up host_url video_id w of
        (Inl (BadResponseError _), w') \<Rightarrow> inner up host_url video_id w'
      | r \<Rightarrow> r)"

subsection \<open>Invidious.search_for\<close>

definition search_request :: "string \<Rightarrow> string \<Rightarrow> request" where
  "search_request host_url query =
     GET (host_url @ ''/api/v1/search'')
       [(''q'', query), (''sort_by'', ''relevance''), (''type'', ''video'')] []"

definition search_for :: "upstream \<Rightarrow> string \<Rightarrow> string \<Rightarrow> world \<Rightarrow> string list \<times> world" where
  "search_for up host_url query w =
     (json (search up (length (requests w)) query), send (search_request host_url query) w)"

subsection \<open>Invidious.get_audio_url\<close>

text \<open>
  Python's \<^verbatim>\<open>>\<close> on two \<^verbatim>\<open>str\<close>: the code points are compared from the left, the
  first difference decides, and a string is greater than each of its proper prefixes.
\<close>

fun str_gt :: "string \<Rightarrow> string \<Rightarrow> bool" where
  "str_gt [] t = False"
| "str_gt (x # xs) [] = True"
| "str_gt (x # xs) (y # ys) = ((of_char y :: nat) < of_char x \<or> (x = y \<and> str_gt xs ys))"

text \<open>
  \<^verbatim>\<open>a > b\<close> on two JSON scalars: numbers by value, strings as above, and a
  \<^verbatim>\<open>TypeError\<close> between a string and a number.
\<close>

definition py_gt :: "jscalar \<Rightarrow> jscalar \<Rightarrow> error + bool" where
  "py_gt a b =
     (case a of
        JInt m \<Rightarrow> (case b of JInt n \<Rightarrow> Inr (n < m) | JStr t \<Rightarrow> Inl TypeError)
      | JStr s \<Rightarrow> (case b of JInt n \<Rightarrow> Inl TypeError | JStr t \<Rightarrow> Inr (str_gt s t)))"

text \<open>
  \<^verbatim>\<open>max(iterable, key=...)\<close>: the first item is the running maximum, a later item
  replaces it only when its key is \<^verbatim>\<open>>\<close> the key of the running maximum; an
  exception of that comparison leaves \<^verbatim>\<open>max\<close>; an empty iterable raises
  \<^verbatim>\<open>ValueError\<close>.
\<close>

fun max_loop :: "('a \<Rightarrow> jscalar) \<Rightarrow> 'a \<Rightarrow> 'a list \<Rightarrow> error + 'a" where
  "max_loop key best [] = Inr best"
| "max_loop key best (x # xs) =
     (case py_gt (key x) (key best) of
        Inl e \<Rightarrow> Inl e
      | Inr gt \<Rightarrow> max_loop key (if gt then x else best) xs)"

definition py_max :: "('a \<Rightarrow> jscalar) \<Rightarrow> 'a list \<Rightarrow> error + 'a" where
  "py_max key xs =
     (case xs of
        [] \<Rightarrow> Inl (ValueError ''max() arg is an empty sequence'')
      | x # rest \<Rightarrow> max_loop key x rest)"

definition startswith :: "string \<Rightarrow> string \<Rightarrow> bool" where
  "startswith s p = (take (length p) s = p)"

definition audio_formats :: "video \<Rightarrow> adaptive_format list" where
  "audio_formats video =
     filter (\<lambda>frmt. startswith (format_type frmt) ''audio/'') (adaptiveFormats video)"

definition audio_request :: "string \<Rightarrow> string \<Rightarrow> string \<Rightarrow> request" where
  "audio_request host_url vid tag =
     GET (host_url @ ''/latest_version'') [(''id'', vid), (''itag'', tag), (''local'', ''true'')] []"

definition get_audio_url ::
  "upstream \<Rightarrow> string \<Rightarrow> video \<Rightarrow> world \<Rightarrow> (error + string) \<times> world" where
  "get_audio_url up host_url video w =
     (case py_max bitrate (audio_formats video) of
        Inl e \<Rightarrow> (Inl e, w)
      | Inr best \<Rightarrow>
          (let resp = latest_version up (length (requests w)) (videoId video) (itag best);
               w' = send (audio_request host_url (videoId video) (itag best)) w
           in if \<not> ok resp
              then (Inl (BadResponseError (''Error fetching audio: '' @ reason resp)), w')
              else (Inr (url resp), w')))"

text \<open>
  The number a bitrate stands for: the value of a JSON number, and of a string of decimal
  digits the number it writes. \<open>is_number\<close> and \<open>digits_of_length n\<close> are the two shapes
  on which \<^verbatim>\<open>>\<close> orders bitrates by that number.
\<close>

definition is_digit :: "char \<Rightarrow> bool" where
  "is_digit c = (48 \<le> (of_char c :: nat) \<and> (of_char c :: nat) \<le> 57)"

fun digits_value :: "string \<Rightarrow> nat" where
  "digits_value [] = 0"
| "digits_value (c # cs) = (of_char c - 48) * 10 ^ length cs + digits_value cs"

definition numeric :: "jscalar \<Rightarrow> int" where
  "numeric b = (case b of JInt n \<Rightarrow> n | JStr s \<Rightarrow> int (digits_value s))"

definition is_number :: "jscalar \<Rightarrow> bool" where
  "is_number b = (case b of JInt n \<Rightarrow> True | JStr s \<Rightarrow> False)"

definition digits_of_length :: "nat \<Rightarrow> jscalar \<Rightarrow> bool" where
  "digits_of_length n b =
     (case b of JInt m \<Rightarrow> False | JStr s \<Rightarrow> length s = n \<and> list_all is_digit s)"

subsection \<open>Regular expressions, as \<^verbatim>\<open>re\<close> runs them\<close>

text \<open>
  The three patterns of the \<^verbatim>\<open>Translator\<close> repeat single characters only, so the
  syntax has \<open>Plus\<close> and \<open>Star\<close> on a character class. \<open>backtrack\<close> lists the ways a
  pattern can match at the front of the input, in the order the backtracking matcher of
  \<^verbatim>\<open>re\<close> tries them: a repetition takes the longest run first, an optional part is
  tried before it is left out, the left alternative before the right one. A state is the
  input still to be read and the text of the group \<^verbatim>\<open>id\<close>. Characters are the code
  points below 256.
\<close>

datatype regex =
    Lit string
  | Plus "char \<Rightarrow> bool"
  | Star "char \<Rightarrow> bool"
  | Opt regex
  | Alt regex regex
  | Seq regex regex
  | Group regex
  | EndOfString

type_synonym mstate = "string \<times> string option"

fun backtrack :: "regex \<Rightarrow> mstate \<Rightarrow> mstate list" where
  "backtrack (Lit l) (s, g) = (if take (length l) s = l then [(drop (length l) s, g)] else [])"
| "backtrack (Plus P) (s, g) =
     map (\<lambda>n. (drop n s, g)) (rev [1..<Suc (length (takeWhile P s))])"
| "backtrack (Star P) (s, g) =
     map (\<lambda>n. (drop n s, g)) (rev [0..<Suc (length (takeWhile P s))])"
| "backtrack (Opt r) st = backtrack r st @ [st]"
| "backtrack (Alt r1 r2) st = backtrack r1 st @ backtrack r2 st"
| "backtrack (Seq r1 r2) st = concat (map (backtrack r2) (backtrack r1 st))"
| "backtrack (Group r) (s, g) =
     map (\<lambda>(s', _). (s', Some (take (length s - length s') s))) (backtrack r (s, g))"
| "backtrack EndOfString (s, g) = (if s = [] \<or> s = [CHR 0x0A] then [(s, g)] else [])"

text \<open>
  \<^verbatim>\<open>pattern.match(url)\<close> is the first way to match at the start of the string
  (\<open>None\<close> when there is none); its value here is \<^verbatim>\<open>match.group("id")\<close>.
\<close>

definition re_match :: "regex \<Rightarrow> string \<Rightarrow> string option option" where
  "re_match r s = (case backtrack r (s, None) of [] \<Rightarrow> None | (_, g) # _ \<Rightarrow> Some g)"

fun cat :: "regex list \<Rightarrow> regex" where
  "cat [] = Lit []"
| "cat [r] = r"
| "cat (r # rs) = Seq r (cat rs)"

definition char_between :: "char \<Rightarrow> char \<Rightarrow> char \<Rightarrow> bool" where
  "char_between lo hi c = ((of_char lo :: nat) \<le> of_char c \<and> (of_char c :: nat) \<le> of_char hi)"

text \<open>\<^verbatim>\<open>.\<close> without \<^verbatim>\<open>DOTALL\<close>\<close>

definition not_newline :: "char \<Rightarrow> bool" where
  "not_newline c = (c \<noteq> CHR 0x0A)"

text \<open>\<^verbatim>\<open>[a-zA-Z0-9_-]\<close>, and \<^verbatim>\<open>[0-9a-zA-Z-_]\<close>, which is the same set\<close>

definition id_char :: "char \<Rightarrow> bool" where
  "id_char c =
     (char_between CHR ''a'' CHR ''z'' c \<or> char_between CHR ''A'' CHR ''Z'' c
      \<or> char_between CHR ''0'' CHR ''9'' c \<or> c = CHR ''_'' \<or> c = CHR ''-'')"

text \<open>\<^verbatim>\<open>[a-z]\<close>\<close>

definition lower_char :: "char \<Rightarrow> bool" where
  "lower_char c = char_between CHR ''a'' CHR ''z'' c"

text \<open>\<^verbatim>\<open>\w\<close> of a \<^verbatim>\<open>str\<close> pattern: alphanumeric or underscore, here below 256\<close>

definition word_char :: "char \<Rightarrow> bool" where
  "word_char c =
     (char_between CHR ''a'' CHR ''z'' c \<or> char_between CHR ''A'' CHR ''Z'' c
      \<or> char_between CHR ''0'' CHR ''9'' c \<or> c = CHR ''_''
      \<or> (of_char c :: nat) \<in> {0xAA, 0xB2, 0xB3, 0xB5, 0xB9, 0xBA, 0xBC, 0xBD, 0xBE}
      \<or> (0xC0 \<le> (of_char c :: nat) \<and> (of_char c :: nat) \<noteq> 0xD7 \<and> (of_char c :: nat) \<noteq> 0xF7))"

subsection \<open>The patterns of the Translator\<close>

text \<open>\<^verbatim>\<open>.+watch\?v=(?P<id>[a-zA-Z0-9_-]+)$\<close>\<close>

definition INVIDIOUS_ID_RE :: regex where
  "INVIDIOUS_ID_RE =
     cat [Plus not_newline, Lit ''watch?v='', Group (Plus id_char), EndOfString]"

text \<open>
  \<^verbatim>\<open>https?://(?:(?:www\.)?youtube\.[a-z]+/watch(?:\?v=|/)|youtu\.be(?:/watch/*\?v=|/))\<close>
  \<^verbatim>\<open>(?P<id>[0-9a-zA-Z-_]+)(?:$|&)\<close>, written over several lines with \<^verbatim>\<open>re.VERBOSE\<close>
\<close>

definition YOUTUBE_ID_RE :: regex where
  "YOUTUBE_ID_RE =
     cat [Lit ''http'', Opt (Lit ''s''), Lit ''://'',
          Alt (cat [Opt (Lit ''www.''), Lit ''youtube.'', Plus lower_char, Lit ''/watch'',
                    Alt (Lit ''?v='') (Lit ''/'')])
              (cat [Lit ''youtu.be'',
                    Alt (cat [Lit ''/watch'', Star (\<lambda>c. c = CHR ''/''), Lit ''?v=''])
                        (Lit ''/'')]),
          Group (Plus id_char),
          Alt EndOfString (Lit ''&'')]"

text \<open>\<^verbatim>\<open>https?://open\.spotify\.com/track/(?P<id>\w+)\<close>\<close>

definition SPOTIFY_ID_RE :: regex where
  "SPOTIFY_ID_RE =
     cat [Lit ''http'', Opt (Lit ''s''), Lit ''://open.spotify.com/track/'',
          Group (Plus word_char)]"

subsection \<open>Translator.update_spotify_token\<close>

text \<open>Times are in microseconds, as a \<^verbatim>\<open>datetime\<close> counts them.\<close>

definition minutes :: "int \<Rightarrow> int" where
  "minutes m = m * 60 * 1000000"

definition seconds :: "int \<Rightarrow> int" where
  "seconds s = s * 1000000"

definition token_request :: "settings \<Rightarrow> request" where
  "token_request cfg =
     POST ''https://accounts.spotify.com/api/token''
       [(''grant_type'', ''client_credentials''),
        (''client_id'', client_id cfg),
        (''client_secret'', client_secret cfg)]"

text \<open>
  The guard reads the clock only when an expiry is stored (\<^verbatim>\<open>and\<close> is short-circuit).
  After the POST, \<^verbatim>\<open>_spotify_token\<close> is assigned before the expiry is computed, and
  the clock is read before \<^verbatim>\<open>data["expires_in"]\<close> is looked up.
\<close>

definition update_spotify_token :: "upstream \<Rightarrow> settings \<Rightarrow> world \<Rightarrow> error option \<times> world" where
  "update_spotify_token up cfg w =
     (let (return_early, w0) =
            (case spotify_token_expires_at w of
               None \<Rightarrow> (False, w)
             | Some expires_at \<Rightarrow>
                 (expires_at < now up (clock_reads w) + minutes 15,
                  w\<lparr>clock_reads := Suc (clock_reads w)\<rparr>))
      in if return_early then (None, w0)
         else
           (let data = json (token up (length (requests w0)) (client_id cfg) (client_secret cfg));
                w1 = send (token_request cfg) w0
            in if token_error data = Some ''invalid_client''
               then (Some (ValueError ''Invalid spotify client id or secret''), w1)
               else
                 (case access_token data of
                    None \<Rightarrow> (Some (KeyError ''access_token''), w1)
                  | Some tok \<Rightarrow>
                      (let w2 = w1\<lparr>spotify_token := Some tok\<rparr>;
                           t = now up (clock_reads w2);
                           w3 = w2\<lparr>clock_reads := Suc (clock_reads w2)\<rparr>
                       in case expires_in data of
                            None \<Rightarrow> (Some (KeyError ''expires_in''), w3)
                          | Some secs \<Rightarrow>
                              (None, w3\<lparr>spotify_token_expires_at := Some (t + seconds secs)\<rparr>)))))"

subsection \<open>Translator.spotify_to_youtube_id\<close>

text \<open>\<^verbatim>\<open>str.join\<close>\<close>

fun join :: "string \<Rightarrow> string list \<Rightarrow> string" where
  "join sep [] = []"
| "join sep [x] = x"
| "join sep (x # y # ys) = x @ sep @ join sep (y # ys)"

text \<open>\<^verbatim>\<open>str\<close> of an int, for the f-string of the third branch\<close>

fun str_nat :: "nat \<Rightarrow> string" where
  "str_nat n =
     (if n < 10 then [char_of (48 + n)] else str_nat (n div 10) @ [char_of (48 + n mod 10)])"

definition str_int :: "int \<Rightarrow> string" where
  "str_int i = (if i < 0 then CHR ''-'' # str_nat (nat (- i)) else str_nat (nat i))"

text \<open>
  \<^verbatim>\<open>data["name"] + " by " + " ".join(artist["name"] for artist in data["artists"])\<close>
\<close>

definition search_query :: "track \<Rightarrow> string" where
  "search_query track_data = name track_data @ '' by '' @ join '' '' (artists track_data)"

definition track_request :: "string \<Rightarrow> string option \<Rightarrow> request" where
  "track_request track_id tok =
     GET (''https://api.spotify.com/v1/tracks/'' @ track_id) []
       [(''Authorization'', ''Bearer '' @ (case tok of None \<Rightarrow> ''None'' | Some t \<Rightarrow> t))]"

text \<open>
  An exception of \<^verbatim>\<open>update_spotify_token\<close> leaves the function before anything else is
  sent. \<^verbatim>\<open>search[0]\<close> of an empty result raises \<^verbatim>\<open>IndexError\<close>.
\<close>

definition spotify_to_youtube_id ::
  "upstream \<Rightarrow> settings \<Rightarrow> string \<Rightarrow> string \<Rightarrow> world \<Rightarrow> (error + string) \<times> world" where
  "spotify_to_youtube_id up cfg host_url track_id w =
     (case update_spotify_token up cfg w of
        (Some e, w1) \<Rightarrow> (Inl e, w1)
      | (None, w1) \<Rightarrow>
          (let resp = tracks up (length (requests w1)) track_id
                        (case spotify_token w1 of None \<Rightarrow> ''None'' | Some t \<Rightarrow> t);
               w2 = send (track_request track_id (spotify_token w1)) w1
           in if status resp = 401 then (Inl (BadResponseError ''Invalid spotify token''), w2)
              else if status resp \<noteq> 200
              then (Inl (BadResponseError ''Could not get track data''), w2)
              else if \<not> ok resp
              then (Inl (BadResponseError
                      (str_int (status resp) @ '' Could not get track data: '' @ reason resp)), w2)
              else
                (case search_for up host_url (search_query (json resp)) w2 of
                   ([], w3) \<Rightarrow> (Inl IndexError, w3)
                 | (hit # _, w3) \<Rightarrow> (Inr hit, w3))))"

subsection \<open>Translator.to_invidious_id\<close>

text \<open>
  The \<^verbatim>\<open>if\<close>/\<^verbatim>\<open>elif\<close> chain over the three patterns. The first two branches return
  the group and touch nothing; only the third goes to the network.
\<close>

definition to_invidious_id ::
  "upstream \<Rightarrow> settings \<Rightarrow> string \<Rightarrow> string \<Rightarrow> world \<Rightarrow> (error + string option) \<times> world" where
  "to_invidious_id up cfg host_url url_in w =
     (case re_match INVIDIOUS_ID_RE url_in of
        Some g \<Rightarrow> (Inr g, w)
      | None \<Rightarrow>
          (case re_match YOUTUBE_ID_RE url_in of
             Some g \<Rightarrow> (Inr g, w)
           | None \<Rightarrow>
               (case re_match SPOTIFY_ID_RE url_in of
                  Some g \<Rightarrow>
                    (case spotify_to_youtube_id up cfg host_url (case g of None \<Rightarrow> ''None'' | Some i \<Rightarrow> i) w of
                       (Inl e, w') \<Rightarrow> (Inl e, w')
                     | (Inr v, w') \<Rightarrow> (Inr (Some v), w'))
                | None \<Rightarrow> (Inr None, w))))"

subsection \<open>Concrete inputs\<close>

text \<open>A queue item named by a string, used where a property is evaluated on an input.\<close>

definition item :: "string \<Rightarrow> string VideoInfo" where
  "item s = \<lparr>data = s, audio_url = ''https://audio.example/'' @ s, input_url = s,
             yt_url = ''https://www.youtube.com/watch?v='' @ s\<rparr>"

text \<open>
  A transport on which nothing plays and nothing raises, and one whose \<^verbatim>\<open>play\<close> raises
  on one connection.
\<close>

definition idle :: transport where
  "idle = \<lparr>is_playing = (\<lambda>_. False), is_paused = (\<lambda>_. False),
            disconnect_raises = (\<lambda>_. None), play_raises = (\<lambda>_ _. None)\<rparr>"

definition failing :: "nat \<Rightarrow> transport" where
  "failing c = \<lparr>is_playing = (\<lambda>_. False), is_paused = (\<lambda>_. False),
            disconnect_raises = (\<lambda>_. None),
            play_raises = (\<lambda>c' _. if c' = c then Some (TransportError ''Not connected to voice.'') else None)\<rparr>"

text \<open>
  A video with one video-only and three audio formats, a video without audio, an upstream
  whose first video lookup carries an error and whose later ones do not, a token endpoint
  that grants a token for one hour, and a clock that advances by a second at each reading.
\<close>

definition sample_video :: "string option \<Rightarrow> video" where
  "sample_video e =
     \<lparr>error = e, videoId = ''abc123'', title = ''Song'',
      adaptiveFormats =
        [\<lparr>format_type = ''video/mp4; codecs=avc1'', bitrate = JStr ''900000'', itag = ''137''\<rparr>,
         \<lparr>format_type = ''audio/mp4; codecs=mp4a'', bitrate = JStr ''130000'', itag = ''140''\<rparr>,
         \<lparr>format_type = ''audio/webm; codecs=opus'', bitrate = JStr ''160000'', itag = ''251''\<rparr>,
         \<lparr>format_type = ''audio/webm; codecs=opus'', bitrate = JStr ''70000'', itag = ''250''\<rparr>]\<rparr>"

definition sample_upstream :: "string list \<Rightarrow> upstream" where
  "sample_upstream names =
     \<lparr>videos = (\<lambda>n _. \<lparr>status = 200, reason = ''OK'', url = [],
                  json = sample_video (if n = 0 then Some ''mismatch'' else None)\<rparr>),
      search = (\<lambda>_ _. \<lparr>status = 200, reason = ''OK'', url = [], json = [''yt1'', ''yt2'']\<rparr>),
      latest_version = (\<lambda>_ _ tag. \<lparr>status = 200, reason = ''OK'',
                  url = ''https://cdn.example/'' @ tag, json = ()\<rparr>),
      tracks = (\<lambda>_ _ _. \<lparr>status = 200, reason = ''OK'', url = [],
                  json = \<lparr>name = ''Song'', artists = names\<rparr>\<rparr>),
      token = (\<lambda>_ _ _. \<lparr>status = 200, reason = ''OK'', url = [],
                  json = \<lparr>token_error = None, access_token = Some ''tok'',
                          expires_in = Some 3600\<rparr>\<rparr>),
      now = (\<lambda>n. 1700000000000000 + seconds (int n))\<rparr>"

definition video_only :: video where
  "video_only =
     \<lparr>error = None, videoId = ''abc123'', title = ''Song'',
      adaptiveFormats =
        [\<lparr>format_type = ''video/mp4; codecs=avc1'', bitrate = JStr ''900000'', itag = ''137''\<rparr>]\<rparr>"

text \<open>
  A video whose audio bitrates are digit strings of one length, and one whose bitrates
  are JSON numbers.
\<close>

definition two_audio_video :: video where
  "two_audio_video =
     \<lparr>error = None, videoId = ''abc123'', title = ''Song'',
      adaptiveFormats =
        [\<lparr>format_type = ''video/mp4; codecs=avc1'', bitrate = JStr ''900000'', itag = ''137''\<rparr>,
         \<lparr>format_type = ''audio/mp4; codecs=mp4a'', bitrate = JStr ''130000'', itag = ''140''\<rparr>,
         \<lparr>format_type = ''audio/webm; codecs=opus'', bitrate = JStr ''160000'', itag = ''251''\<rparr>]\<rparr>"

definition numeric_video :: video where
  "numeric_video =
     \<lparr>error = None, videoId = ''abc123'', title = ''Song'',
      adaptiveFormats =
        [\<lparr>format_type = ''video/mp4; codecs=avc1'', bitrate = JInt 900000, itag = ''137''\<rparr>,
         \<lparr>format_type = ''audio/mp4; codecs=mp4a'', bitrate = JInt 130000, itag = ''140''\<rparr>,
         \<lparr>format_type = ''audio/webm; codecs=opus'', bitrate = JInt 160000, itag = ''251''\<rparr>,
         \<lparr>format_type = ''audio/webm; codecs=opus'', bitrate = JInt 70000, itag = ''250''\<rparr>]\<rparr>"

definition sample_settings :: settings where
  "sample_settings = \<lparr>client_id = ''id'', client_secret = ''secret''\<rparr>"

definition fresh_world :: world where
  "fresh_world = \<lparr>spotify_token = None, spotify_token_expires_at = None,
                  requests = [], clock_reads = 0\<rparr>"

section \<open>Properties\<close>

subsection \<open>Slices and association lists\<close>

lemma slice_from_nonneg: "0 \<le> i \<Longrightarrow> slice_from xs i = drop (nat i) xs"
  by (cases "nat i \<le> length xs") (simp_all add: slice_from_def slice_bound_def min_def)

lemma slice_upto_nonneg: "0 \<le> i \<Longrightarrow> slice_upto xs i = take (nat i) xs"
  by (cases "nat i \<le> length xs") (simp_all add: slice_upto_def slice_bound_def min_def)

lemma slice_from_zero: "slice_from xs 0 = xs"
  by (simp add: slice_from_def slice_bound_def)

lemma slice_upto_zero: "slice_upto xs 0 = []"
  by (simp add: slice_upto_def slice_bound_def)

lemma slice_from_neg:
  "0 < k \<Longrightarrow> k \<le> length xs \<Longrightarrow> slice_from xs (- int k) = drop (length xs - k) xs"
  by (simp add: slice_from_def slice_bound_def nat_diff_distrib')

lemma slice_upto_neg_all: "length xs \<le> k \<Longrightarrow> slice_upto xs (- int k) = []"
  by (simp add: slice_upto_def slice_bound_def)

lemma slice_from_all: "int (length xs) \<le> n \<Longrightarrow> slice_from xs n = []"
  by (simp add: slice_from_def slice_bound_def)

lemma map_of_map_entry_at:
  "map_of (AList.map_entry k f ps) k' =
     (if k' = k then map_option f (map_of ps k) else map_of ps k')"
  by (simp add: map_of_map_entry split: option.splits)

lemma map_entry_ident:
  "map_of ps k = Some p \<Longrightarrow> f p = p \<Longrightarrow> AList.map_entry k f ps = ps"
  by (induction ps) (auto split: if_splits)

subsection \<open>skip\<close>

text \<open>What \<open>skip\<close> does once both guards have passed.\<close>

lemma skip_existing:
  assumes "map_of ps c = Some player" "queue player \<noteq> []"
  shows "skip (Some c) steps ps =
     (AList.map_entry c (\<lambda>p. p\<lparr>queue :=
         (if loop player
          then slice_from (queue player) steps @ slice_upto (slice_from (queue player) steps) steps
          else slice_from (queue player) steps)\<rparr>) ps,
      Skipped steps)"
  using assms by (simp add: skip_def Let_def)

text \<open>
  With loop enabled and \<open>0 < n \<le> len(P)\<close>, the items appended are the first \<open>n\<close> of what
  is left, not the \<open>n\<close> that were removed.
\<close>

lemma skip_loop_positive:
  assumes "map_of ps c = Some player" "loop player" "0 < n" "n \<le> length (queue player)"
  shows "map_of (fst (skip (Some c) (int n) ps)) c =
           Some (player\<lparr>queue := drop n (queue player) @ take n (drop n (queue player))\<rparr>)"
proof -
  have "queue player \<noteq> []" using assms by auto
  then show ?thesis
    using assms
    by (simp add: skip_existing slice_from_nonneg slice_upto_nonneg map_of_map_entry_at)
qed

text \<open>
  C2. The claim: with loop enabled and \<open>0 < n \<le> len(P)\<close>, \<open>skip\<close> leaves pending equal to
  \<open>drop n P @ take n P\<close>. The code does not: on pending \<open>[A, B, C]\<close> with loop enabled,
  \<open>skip 1\<close> leaves \<open>[B, C, B]\<close>, where the claim asks for \<open>[B, C, A]\<close>. The removed item
  \<open>A\<close> is lost and \<open>B\<close> is queued twice; the currently-playing item is untouched.
\<close>

theorem skip_loop_reappends_wrong_items:
  "skip (Some 1) 1
      [(1, \<lparr>connection = 0, queue = [item ''A'', item ''B'', item ''C''],
            now_playing = Some (item ''N''), loop = True\<rparr>)]
   = ([(1, \<lparr>connection = 0, queue = [item ''B'', item ''C'', item ''B''],
            now_playing = Some (item ''N''), loop = True\<rparr>)], Skipped 1)
   \<and> [item ''B'', item ''C'', item ''B'']
       \<noteq> drop 1 [item ''A'', item ''B'', item ''C''] @ take 1 [item ''A'', item ''B'', item ''C'']"
  by (simp add: skip_def slice_from_def slice_upto_def slice_bound_def item_def)

text \<open>
  C10. For a channel with a non-empty pending sequence \<open>P\<close>: \<open>skip 0\<close> leaves the registry
  as it is, and for \<open>0 < k \<le> len(P)\<close>, \<open>skip (-k)\<close> leaves exactly the last \<open>k\<close> items of
  \<open>P\<close>, whatever the loop flag is.
\<close>

theorem skip_nonpositive_steps:
  assumes "map_of ps c = Some player" and "queue player \<noteq> []"
    and "0 < k" and "k \<le> length (queue player)"
  shows "skip (Some c) 0 ps = (ps, Skipped 0)
       \<and> map_of (fst (skip (Some c) (- int k) ps)) c =
             Some (player\<lparr>queue := drop (length (queue player) - k) (queue player)\<rparr>)
       \<and> snd (skip (Some c) (- int k) ps) = Skipped (- int k)"
proof -
  have zero: "skip (Some c) 0 ps = (ps, Skipped 0)"
    using assms(1,2)
    by (simp add: skip_existing slice_from_zero slice_upto_zero map_entry_ident)
  have "slice_upto (slice_from (queue player) (- int k)) (- int k) = []"
    using assms(3,4) by (simp add: slice_from_neg slice_upto_neg_all)
  then have neg: "skip (Some c) (- int k) ps =
      (AList.map_entry c
         (\<lambda>p. p\<lparr>queue := drop (length (queue player) - k) (queue player)\<rparr>) ps,
       Skipped (- int k))"
    using assms by (simp add: skip_existing slice_from_neg)
  show ?thesis
    using zero assms(1) by (simp add: neg map_of_map_entry_at)
qed

theorem skip_nonpositive_steps_witness:
  "skip (Some 1) 0
      [(1, \<lparr>connection = 0, queue = [item ''A'', item ''B'', item ''C''],
            now_playing = None, loop = True\<rparr>)]
     = ([(1, \<lparr>connection = 0, queue = [item ''A'', item ''B'', item ''C''],
            now_playing = None, loop = True\<rparr>)], Skipped 0)
   \<and> map_of (fst (skip (Some 1) (- 2)
      [(1, \<lparr>connection = 0, queue = [item ''A'', item ''B'', item ''C''],
            now_playing = None, loop = True\<rparr>)])) 1
     = Some \<lparr>connection = 0, queue = [item ''B'', item ''C''],
            now_playing = None, loop = True\<rparr>"
  using skip_nonpositive_steps
    [of "[(1, \<lparr>connection = 0, queue = [item ''A'', item ''B'', item ''C''],
            now_playing = None, loop = True\<rparr>)]" 1
        "\<lparr>connection = 0, queue = [item ''A'', item ''B'', item ''C''],
            now_playing = None, loop = True\<rparr>" 2]
  by simp

text \<open>
  C6, as stated, fails where pending is already empty: the second guard of the command
  answers "Nothing is currently playing", the reply it also gives for a channel without a
  queue, and not "Skipped n songs".
\<close>

theorem skip_empty_pending_counterexample:
  "skip (Some 1) 1
      [(1, \<lparr>connection = 0, queue = [], now_playing = Some (item ''N''), loop = False\<rparr>)]
   = ([(1, \<lparr>connection = 0, queue = [], now_playing = Some (item ''N''), loop = False\<rparr>)],
      NothingPlaying)"
  by (simp add: skip_def)

text \<open>
  C6, amended. For a channel with a queue and \<open>n \<ge> len(pending)\<close>: after \<open>skip n\<close> the
  pending sequence is empty and nothing else of the player has changed; no exception is
  raised (\<open>skip\<close> has no failing branch); the reply is "Skipped n songs" when pending was
  not empty and "Nothing is currently playing" when it was.
\<close>

theorem skip_at_least_pending:
  assumes "map_of ps c = Some player" and "int (length (queue player)) \<le> n"
  shows "map_of (fst (skip (Some c) n ps)) c = Some (player\<lparr>queue := []\<rparr>)
       \<and> snd (skip (Some c) n ps) = (if queue player = [] then NothingPlaying else Skipped n)"
proof (cases "queue player = []")
  case True
  then have "player\<lparr>queue := []\<rparr> = player" by simp
  then show ?thesis using assms True by (simp add: skip_def)
next
  case False
  have "slice_from (queue player) n = []"
    using assms(2) by (rule slice_from_all)
  then show ?thesis
    using assms False
    by (simp add: skip_existing map_of_map_entry_at slice_upto_def)
qed

theorem skip_at_least_pending_witness:
  "map_of (fst (skip (Some 1) 5
      [(1, \<lparr>connection = 0, queue = [item ''A'', item ''B''],
            now_playing = None, loop = True\<rparr>)])) 1
     = Some \<lparr>connection = 0, queue = [], now_playing = None, loop = True\<rparr>
   \<and> snd (skip (Some 1) 5
      [(1, \<lparr>connection = 0, queue = [item ''A'', item ''B''],
            now_playing = None, loop = True\<rparr>)]) = Skipped 5"
  using skip_at_least_pending
    [of "[(1, \<lparr>connection = 0, queue = [item ''A'', item ''B''],
            now_playing = None, loop = True\<rparr>)]" 1
        "\<lparr>connection = 0, queue = [item ''A'', item ''B''],
            now_playing = None, loop = True\<rparr>" 5]
  by (simp add: item_def)

subsection \<open>play_queue\<close>

text \<open>
  Processing one channel touches the entry of that channel only, and what it does there
  and to the transport is what it does on a registry holding that channel alone.
\<close>

lemma body_frame:
  "k \<noteq> g \<Longrightarrow> map_of (fst (play_queue_body tr g p ps)) k = map_of ps k"
  by (simp add: play_queue_body_def Let_def map_of_map_entry_at
           split: list.splits option.splits)

lemma body_distinct:
  "distinct (map fst ps) \<Longrightarrow> distinct (map fst (fst (play_queue_body tr g p ps)))"
  by (simp add: play_queue_body_def Let_def distinct_map_entry distinct_delete
           split: list.splits option.splits)

lemma body_single:
  assumes "map_of ps g = Some p"
  shows "snd (play_queue_body tr g p ps) = snd (play_queue_body tr g p [(g, p)])"
    and "map_of (fst (play_queue_body tr g p ps)) g =
           map_of (fst (play_queue_body tr g p [(g, p)])) g"
proof -
  have mem: "g \<in> fst ` set ps"
    using assms by (metis domI dom_map_of_conv_image_fst)
  show "snd (play_queue_body tr g p ps) = snd (play_queue_body tr g p [(g, p)])"
    using mem by (simp add: play_queue_body_def Let_def split: list.splits option.splits)
  show "map_of (fst (play_queue_body tr g p ps)) g =
           map_of (fst (play_queue_body tr g p [(g, p)])) g"
    using mem assms
    by (simp add: play_queue_body_def Let_def map_of_map_entry_at delete_conv'
             split: list.splits option.splits)
qed

lemma loop_frame:
  "k \<notin> fst ` set snap \<Longrightarrow> map_of (fst (play_queue_loop tr snap ps)) k = map_of ps k"
proof (induction snap arbitrary: ps)
  case Nil
  then show ?case by simp
next
  case (Cons a snap)
  obtain h q where a: "a = (h, q)" by (cases a)
  obtain ps1 c1 r1 where b: "play_queue_body tr h q ps = (ps1, c1, r1)"
    by (cases "play_queue_body tr h q ps") auto
  have hk: "k \<noteq> h" and rest: "k \<notin> fst ` set snap" using Cons.prems a by auto
  have f1: "map_of ps1 k = map_of ps k" using body_frame[OF hk, of tr q ps] b by simp
  show ?case
  proof (cases r1)
    case None
    obtain ps2 c2 r2 where l: "play_queue_loop tr snap ps1 = (ps2, c2, r2)"
      by (cases "play_queue_loop tr snap ps1") auto
    have "map_of ps2 k = map_of ps1 k" using Cons.IH[OF rest, of ps1] l by simp
    then show ?thesis using a b None l f1 by simp
  next
    case (Some e)
    then show ?thesis using a b f1 by simp
  qed
qed

lemma loop_distinct:
  "distinct (map fst ps) \<Longrightarrow> distinct (map fst (fst (play_queue_loop tr snap ps)))"
proof (induction snap arbitrary: ps)
  case Nil
  then show ?case by simp
next
  case (Cons a snap)
  obtain h q where a: "a = (h, q)" by (cases a)
  obtain ps1 c1 r1 where b: "play_queue_body tr h q ps = (ps1, c1, r1)"
    by (cases "play_queue_body tr h q ps") auto
  have d1: "distinct (map fst ps1)" using body_distinct[OF Cons.prems, of tr h q] b by simp
  show ?case
  proof (cases r1)
    case None
    obtain ps2 c2 r2 where l: "play_queue_loop tr snap ps1 = (ps2, c2, r2)"
      by (cases "play_queue_loop tr snap ps1") auto
    have "distinct (map fst ps2)" using Cons.IH[OF d1] l by simp
    then show ?thesis using a b None l by simp
  next
    case (Some e)
    then show ?thesis using a b d1 by simp
  qed
qed

lemma loop_append:
  "play_queue_loop tr (xs @ ys) ps =
     (case play_queue_loop tr xs ps of
        (ps1, c1, Some e) \<Rightarrow> (ps1, c1, Some e)
      | (ps1, c1, None) \<Rightarrow>
          (case play_queue_loop tr ys ps1 of (ps2, c2, r) \<Rightarrow> (ps2, c1 @ c2, r)))"
proof (induction xs arbitrary: ps)
  case Nil
  then show ?case by (simp split: prod.splits)
next
  case (Cons a xs)
  obtain h q where a: "a = (h, q)" by (cases a)
  show ?case
    by (simp add: a Cons.IH split: prod.splits option.splits)
qed

lemma loop_channel:
  assumes "distinct (map fst snap)" "(g, p) \<in> set snap" "map_of ps g = Some p"
    and "play_queue_loop tr snap ps = (ps', calls, None)"
  shows "map_of ps' g = map_of (fst (play_queue_body tr g p [(g, p)])) g
       \<and> set (fst (snd (play_queue_body tr g p [(g, p)]))) \<subseteq> set calls
       \<and> snd (snd (play_queue_body tr g p [(g, p)])) = None"
  using assms
proof (induction snap arbitrary: ps calls)
  case Nil
  then show ?case by simp
next
  case (Cons a snap)
  obtain h q where a: "a = (h, q)" by (cases a)
  obtain ps1 c1 r1 where b: "play_queue_body tr h q ps = (ps1, c1, r1)"
    by (cases "play_queue_body tr h q ps") auto
  have r1: "r1 = None" using Cons.prems(4) a b by (cases r1) auto
  obtain ps2 c2 r2 where l: "play_queue_loop tr snap ps1 = (ps2, c2, r2)"
    by (cases "play_queue_loop tr snap ps1") auto
  have res: "ps' = ps2" "calls = c1 @ c2" "r2 = None"
    using Cons.prems(4) a b r1 l by auto
  have dist: "distinct (map fst snap)" "h \<notin> fst ` set snap"
    using Cons.prems(1) a by auto
  show ?case
  proof (cases "(g, p) = (h, q)")
    case True
    then have gh: "g = h" "p = q" by auto
    have "map_of ps2 g = map_of ps1 g"
      using loop_frame[of g snap tr ps1] dist(2) gh l by simp
    moreover have "map_of ps1 g = map_of (fst (play_queue_body tr g p [(g, p)])) g"
      using body_single(2)[OF Cons.prems(3), of tr] b gh by simp
    moreover have "snd (play_queue_body tr g p [(g, p)]) = (c1, None)"
      using body_single(1)[OF Cons.prems(3), of tr] b gh r1 by simp
    ultimately show ?thesis using res by simp
  next
    case False
    then have mem: "(g, p) \<in> set snap" using Cons.prems(2) a by auto
    then have "g \<noteq> h" using dist(2) by (metis fst_conv image_eqI)
    then have "map_of ps1 g = Some p"
      using body_frame[of g h tr q ps] b Cons.prems(3) by simp
    from Cons.IH[OF dist(1) mem this, of c2] l res
    show ?thesis by auto
  qed
qed

lemma tick_channel:
  assumes "distinct (map fst ps)" "map_of ps g = Some p"
    and "play_queue tr ps = (ps', calls, None)"
  shows "map_of ps' g = map_of (fst (play_queue_body tr g p [(g, p)])) g
       \<and> set (fst (snd (play_queue_body tr g p [(g, p)]))) \<subseteq> set calls"
  using loop_channel[OF assms(1) map_of_SomeD[OF assms(2)] assms(2), of tr ps' calls] assms(3)
  by (simp add: play_queue_def)

lemma tick_distinct:
  "distinct (map fst ps) \<Longrightarrow> play_queue tr ps = (ps', calls, r) \<Longrightarrow> distinct (map fst ps')"
  using loop_distinct[of ps tr ps] by (simp add: play_queue_def)

lemma body_rotates:
  assumes "\<not> is_playing tr (connection p)" "\<not> is_paused tr (connection p)"
    "queue p = x # xs" "loop p"
  shows "play_queue_body tr g p [(g, p)] =
     ([(g, p\<lparr>queue := xs @ [x], now_playing := Some x\<rparr>)],
      [Play (connection p) (audio_url x) before_options],
      play_raises tr (connection p) (audio_url x))"
  using assms by (simp add: play_queue_body_def Let_def)

text \<open>
  C3, as stated, fails when another channel stands before this one in the snapshot and
  its \<^verbatim>\<open>play\<close> raises: channel 2 has loop enabled and pending \<open>[X, Y]\<close>, its transport
  reports neither playing nor paused, and nothing else mutates the queue, yet the first
  tick ends with the exception of channel 1 and does not start \<open>X\<close>; pending of channel 2
  is still \<open>[X, Y]\<close>.
\<close>

theorem loop_cycle_after_failing_channel_counterexample:
  "play_queue (failing 10)
      [(1, \<lparr>connection = 10, queue = [item ''A''], now_playing = None, loop = False\<rparr>),
       (2, \<lparr>connection = 20, queue = [item ''X'', item ''Y''], now_playing = None, loop = True\<rparr>)]
     = ([(1, \<lparr>connection = 10, queue = [], now_playing = Some (item ''A''), loop = False\<rparr>),
         (2, \<lparr>connection = 20, queue = [item ''X'', item ''Y''], now_playing = None,
              loop = True\<rparr>)],
        [Play 10 (audio_url (item ''A'')) before_options],
        Some (TransportError ''Not connected to voice.''))
   \<and> is_playing (failing 10) 20 = False \<and> is_paused (failing 10) 20 = False"
  by (simp add: play_queue_def play_queue_body_def failing_def)

text \<open>
  C3, amended. A channel \<open>g\<close> with loop enabled and pending \<open>[X, Y]\<close>, in a registry with
  any other channels, whose transport reports neither playing nor paused at each of three
  ticks, the registry being handed from one tick to the next unchanged, and each of the
  three ticks running to its end without an exception: the ticks call \<^verbatim>\<open>play\<close> on the
  channel's connection for \<open>X\<close>, then \<open>Y\<close>, then \<open>X\<close>; each tick pops the head and appends
  it to the tail, so pending is \<open>[Y, X]\<close>, \<open>[X, Y]\<close>, \<open>[Y, X]\<close>, of length 2 after every
  tick. By \<open>body_rotates\<close> the rotated queue is in the registry whatever \<^verbatim>\<open>play\<close> then
  does.
\<close>

theorem loop_cycles_through_pending:
  assumes "distinct (map fst ps0)" and "map_of ps0 g = Some player"
    and "queue player = [X, Y]" and "loop player"
    and "\<not> is_playing tr1 (connection player)" and "\<not> is_paused tr1 (connection player)"
    and "\<not> is_playing tr2 (connection player)" and "\<not> is_paused tr2 (connection player)"
    and "\<not> is_playing tr3 (connection player)" and "\<not> is_paused tr3 (connection player)"
    and "play_queue tr1 ps0 = (ps1, calls1, None)"
    and "play_queue tr2 ps1 = (ps2, calls2, None)"
    and "play_queue tr3 ps2 = (ps3, calls3, None)"
  shows "map_of ps1 g = Some (player\<lparr>queue := [Y, X], now_playing := Some X\<rparr>)
       \<and> Play (connection player) (audio_url X) before_options \<in> set calls1
       \<and> map_of ps2 g = Some (player\<lparr>queue := [X, Y], now_playing := Some Y\<rparr>)
       \<and> Play (connection player) (audio_url Y) before_options \<in> set calls2
       \<and> map_of ps3 g = Some (player\<lparr>queue := [Y, X], now_playing := Some X\<rparr>)
       \<and> Play (connection player) (audio_url X) before_options \<in> set calls3"
proof -
  let ?p1 = "player\<lparr>queue := [Y, X], now_playing := Some X\<rparr>"
  let ?p2 = "player\<lparr>queue := [X, Y], now_playing := Some Y\<rparr>"
  have t1: "map_of ps1 g = Some ?p1
      \<and> Play (connection player) (audio_url X) before_options \<in> set calls1"
    using tick_channel[OF assms(1) assms(2) assms(11)]
      body_rotates[of tr1 player X "[Y]" g] assms(3-6)
    by simp
  have d1: "distinct (map fst ps1)" using tick_distinct[OF assms(1) assms(11)] .
  have t2: "map_of ps2 g = Some ?p2
      \<and> Play (connection player) (audio_url Y) before_options \<in> set calls2"
    using tick_channel[OF d1 conjunct1[OF t1] assms(12)]
      body_rotates[of tr2 ?p1 Y "[X]" g] assms(4,7,8)
    by simp
  have d2: "distinct (map fst ps2)" using tick_distinct[OF d1 assms(12)] .
  have t3: "map_of ps3 g = Some ?p1
      \<and> Play (connection player) (audio_url X) before_options \<in> set calls3"
    using tick_channel[OF d2 conjunct1[OF t2] assms(13)]
      body_rotates[of tr3 ?p2 X "[Y]" g] assms(4,9,10)
    by simp
  show ?thesis using t1 t2 t3 by simp
qed

theorem loop_cycles_through_pending_witness:
  "play_queue idle
      [(1, \<lparr>connection = 10, queue = [item ''A''], now_playing = None, loop = False\<rparr>),
       (2, \<lparr>connection = 20, queue = [item ''X'', item ''Y''], now_playing = None, loop = True\<rparr>)]
     = ([(1, \<lparr>connection = 10, queue = [], now_playing = Some (item ''A''), loop = False\<rparr>),
         (2, \<lparr>connection = 20, queue = [item ''Y'', item ''X''],
              now_playing = Some (item ''X''), loop = True\<rparr>)],
        [Play 10 (audio_url (item ''A'')) before_options,
         Play 20 (audio_url (item ''X'')) before_options], None)
   \<and> play_queue idle
      [(1, \<lparr>connection = 10, queue = [], now_playing = Some (item ''A''), loop = False\<rparr>),
       (2, \<lparr>connection = 20, queue = [item ''Y'', item ''X''],
            now_playing = Some (item ''X''), loop = True\<rparr>)]
     = ([(2, \<lparr>connection = 20, queue = [item ''X'', item ''Y''],
              now_playing = Some (item ''Y''), loop = True\<rparr>)],
        [Disconnect 10, Play 20 (audio_url (item ''Y'')) before_options], None)
   \<and> play_queue idle
      [(2, \<lparr>connection = 20, queue = [item ''X'', item ''Y''],
            now_playing = Some (item ''Y''), loop = True\<rparr>)]
     = ([(2, \<lparr>connection = 20, queue = [item ''Y'', item ''X''],
              now_playing = Some (item ''X''), loop = True\<rparr>)],
        [Play 20 (audio_url (item ''X'')) before_options], None)
   \<and> Play 20 (audio_url (item ''Y'')) before_options
        \<in> set [Disconnect 10, Play 20 (audio_url (item ''Y'')) before_options]"
proof -
  let ?a = "\<lparr>connection = 10, queue = [item ''A''], now_playing = None, loop = False\<rparr>"
  let ?a' = "\<lparr>connection = 10, queue = [], now_playing = Some (item ''A''), loop = False\<rparr>"
  let ?p0 = "\<lparr>connection = 20, queue = [item ''X'', item ''Y''],
              now_playing = None, loop = True\<rparr>"
  let ?p1 = "\<lparr>connection = 20, queue = [item ''Y'', item ''X''],
              now_playing = Some (item ''X''), loop = True\<rparr>"
  let ?p2 = "\<lparr>connection = 20, queue = [item ''X'', item ''Y''],
              now_playing = Some (item ''Y''), loop = True\<rparr>"
  have e1: "play_queue idle [(1, ?a), (2, ?p0)]
      = ([(1, ?a'), (2, ?p1)],
         [Play 10 (audio_url (item ''A'')) before_options,
          Play 20 (audio_url (item ''X'')) before_options], None)"
    by (simp add: play_queue_def play_queue_body_def idle_def)
  have e2: "play_queue idle [(1, ?a'), (2, ?p1)]
      = ([(2, ?p2)], [Disconnect 10, Play 20 (audio_url (item ''Y'')) before_options], None)"
    by (simp add: play_queue_def play_queue_body_def idle_def)
  have e3: "play_queue idle [(2, ?p2)]
      = ([(2, ?p1)], [Play 20 (audio_url (item ''X'')) before_options], None)"
    by (simp add: play_queue_def play_queue_body_def idle_def)
  have "Play (connection ?p0) (audio_url (item ''Y'')) before_options
          \<in> set [Disconnect 10, Play 20 (audio_url (item ''Y'')) before_options]"
    using loop_cycles_through_pending
      [of "[(1, ?a), (2, ?p0)]" 2 ?p0 "item ''X''" "item ''Y''" idle idle idle,
       OF _ _ _ _ _ _ _ _ _ _ e1 e2 e3]
    by (simp add: idle_def)
  then show ?thesis using e1 e2 e3 by simp
qed

text \<open>
  C7, as stated, fails: the loop has no \<^verbatim>\<open>try\<close>. With two channels due, when
  \<^verbatim>\<open>play\<close> raises for the first one the tick ends with that exception and channel 2
  is not processed (its entry is unchanged and no call is made on connection 20), although
  on its own channel 2 is processed without failure.
\<close>

theorem tick_halts_on_exception_counterexample:
  "play_queue (failing 10)
      [(1, \<lparr>connection = 10, queue = [item ''A''], now_playing = None, loop = False\<rparr>),
       (2, \<lparr>connection = 20, queue = [item ''B''], now_playing = None, loop = False\<rparr>)]
     = ([(1, \<lparr>connection = 10, queue = [], now_playing = Some (item ''A''), loop = False\<rparr>),
         (2, \<lparr>connection = 20, queue = [item ''B''], now_playing = None, loop = False\<rparr>)],
        [Play 10 (audio_url (item ''A'')) before_options],
        Some (TransportError ''Not connected to voice.''))
   \<and> play_queue (failing 10)
      [(2, \<lparr>connection = 20, queue = [item ''B''], now_playing = None, loop = False\<rparr>)]
     = ([(2, \<lparr>connection = 20, queue = [], now_playing = Some (item ''B''), loop = False\<rparr>)],
        [Play 20 (audio_url (item ''B'')) before_options], None)"
  by (simp add: play_queue_def play_queue_body_def failing_def)

text \<open>
  C7, amended. When the body raises for a channel \<open>g\<close> of the snapshot, after the channels
  \<open>pre\<close> before it were processed without an exception, the tick ends there: its result is
  the registry and the transport calls as of the raise, with the exception, and every
  channel after \<open>g\<close> in the snapshot still has the entry it had when the tick began.
\<close>

theorem tick_stops_at_first_exception:
  assumes "distinct (map fst ps)" and "ps = pre @ (g, p) # rest"
    and "play_queue_loop tr pre ps = (ps1, calls1, None)"
    and "play_queue_body tr g p ps1 = (ps2, calls2, Some e)"
  shows "play_queue tr ps = (ps2, calls1 @ calls2, Some e)
       \<and> (\<forall>(g', p') \<in> set rest. map_of ps2 g' = Some p')"
proof -
  have run: "play_queue tr ps = (ps2, calls1 @ calls2, Some e)"
    unfolding play_queue_def
    by (subst assms(2)) (simp add: loop_append assms(3,4))
  have untouched: "map_of ps2 g' = Some p'" if mem: "(g', p') \<in> set rest" for g' p'
  proof -
    have keys: "g' \<notin> fst ` set pre" "g' \<noteq> g"
      using assms(1) mem unfolding assms(2) by (force simp: image_iff)+
    have "(g', p') \<in> set ps" using mem assms(2) by simp
    then have "map_of ps g' = Some p'" using assms(1) by simp
    moreover have "map_of ps1 g' = map_of ps g'"
      using loop_frame[OF keys(1), of tr ps] assms(3) by simp
    moreover have "map_of ps2 g' = map_of ps1 g'"
      using body_frame[OF keys(2), of tr p ps1] assms(4) by simp
    ultimately show ?thesis by simp
  qed
  show ?thesis using run untouched by auto
qed

theorem tick_stops_at_first_exception_witness:
  "play_queue (failing 20)
      [(1, \<lparr>connection = 10, queue = [item ''A''], now_playing = None, loop = False\<rparr>),
       (2, \<lparr>connection = 20, queue = [item ''B''], now_playing = None, loop = False\<rparr>),
       (3, \<lparr>connection = 30, queue = [item ''C''], now_playing = None, loop = False\<rparr>)]
     = ([(1, \<lparr>connection = 10, queue = [], now_playing = Some (item ''A''), loop = False\<rparr>),
         (2, \<lparr>connection = 20, queue = [], now_playing = Some (item ''B''), loop = False\<rparr>),
         (3, \<lparr>connection = 30, queue = [item ''C''], now_playing = None, loop = False\<rparr>)],
        [Play 10 (audio_url (item ''A'')) before_options,
         Play 20 (audio_url (item ''B'')) before_options],
        Some (TransportError ''Not connected to voice.''))
   \<and> map_of [(1 :: int, \<lparr>connection = 10, queue = [], now_playing = Some (item ''A''), loop = False\<rparr>),
             (2, \<lparr>connection = 20, queue = [], now_playing = Some (item ''B''), loop = False\<rparr>),
             (3, \<lparr>connection = 30, queue = [item ''C''], now_playing = None, loop = False\<rparr>)] 3
       = Some \<lparr>connection = 30, queue = [item ''C''], now_playing = None, loop = False\<rparr>"
proof -
  let ?a = "\<lparr>connection = 10, queue = [item ''A''], now_playing = None, loop = False\<rparr>"
  let ?b = "\<lparr>connection = 20, queue = [item ''B''], now_playing = None, loop = False\<rparr>"
  let ?c = "\<lparr>connection = 30, queue = [item ''C''], now_playing = None, loop = False\<rparr>"
  let ?a' = "\<lparr>connection = 10, queue = [], now_playing = Some (item ''A''), loop = False\<rparr>"
  let ?b' = "\<lparr>connection = 20, queue = [], now_playing = Some (item ''B''), loop = False\<rparr>"
  have d: "distinct (map fst [(1 :: int, ?a), (2, ?b), (3, ?c)])" by simp
  have s: "[(1 :: int, ?a), (2, ?b), (3, ?c)] = [(1, ?a)] @ (2, ?b) # [(3, ?c)]" by simp
  have l: "play_queue_loop (failing 20) [(1, ?a)] [(1, ?a), (2, ?b), (3, ?c)]
      = ([(1, ?a'), (2, ?b), (3, ?c)], [Play 10 (audio_url (item ''A'')) before_options], None)"
    by (simp add: play_queue_body_def failing_def)
  have b: "play_queue_body (failing 20) 2 ?b [(1, ?a'), (2, ?b), (3, ?c)]
      = ([(1, ?a'), (2, ?b'), (3, ?c)], [Play 20 (audio_url (item ''B'')) before_options],
         Some (TransportError ''Not connected to voice.''))"
    by (simp add: play_queue_body_def failing_def)
  show ?thesis
    using tick_stops_at_first_exception[OF d s l b] by simp
qed

subsection \<open>get_video\<close>

lemma inner_eq:
  "inner up h v w =
     (if truthy (error (json (videos up (length (requests w)) v)))
      then (Inl (BadResponseError (''Error fetching video: ''
              @ the (error (json (videos up (length (requests w)) v))))),
            send (video_request h v) w)
      else (Inr (json (videos up (length (requests w)) v)), send (video_request h v) w))"
  by (simp add: inner_def Let_def)

text \<open>
  C4. \<open>get_video\<close> sends one lookup. A response carries an embedded error when
  \<^verbatim>\<open>data.get("error")\<close> is truthy, which is the test the code makes. If the first
  response carries none, it is returned and nothing more is sent. Otherwise the lookup is
  sent once more, and only once: the second response is returned if it carries no error,
  and the call fails with \<^verbatim>\<open>BadResponseError\<close> if it does. So the call succeeds exactly
  when the first or the second response is free of an error, and never sends a third
  lookup.
\<close>

theorem get_video_retries_once:
  "get_video up host_url video_id w =
     (let first = json (videos up (length (requests w)) video_id);
          second = json (videos up (Suc (length (requests w))) video_id);
          rq = video_request host_url video_id
      in if \<not> truthy (error first) then (Inr first, w\<lparr>requests := requests w @ [rq]\<rparr>)
         else if \<not> truthy (error second)
         then (Inr second, w\<lparr>requests := requests w @ [rq, rq]\<rparr>)
         else (Inl (BadResponseError (''Error fetching video: '' @ the (error second))),
               w\<lparr>requests := requests w @ [rq, rq]\<rparr>))"
  by (simp add: get_video_def inner_eq send_def Let_def)

theorem get_video_retries_once_witness:
  "get_video (sample_upstream []) ''https://inv.example'' ''abc123'' fresh_world =
     (Inr (sample_video None),
      fresh_world\<lparr>requests :=
        [video_request ''https://inv.example'' ''abc123'',
         video_request ''https://inv.example'' ''abc123'']\<rparr>)"
  using get_video_retries_once [of "sample_upstream []" "''https://inv.example''" "''abc123''" fresh_world]
  by (simp add: sample_upstream_def sample_video_def fresh_world_def truthy_def Let_def)

subsection \<open>get_audio_url\<close>

text \<open>
  On digit strings of one length, and on numbers, \<^verbatim>\<open>>\<close> orders bitrates by the
  number they stand for.
\<close>

lemma digits_value_bound: "list_all is_digit cs \<Longrightarrow> digits_value cs < 10 ^ length cs"
proof (induction cs)
  case Nil
  then show ?case by simp
next
  case (Cons c cs)
  have "(of_char c :: nat) \<le> 57" using Cons.prems by (simp add: is_digit_def)
  then have d: "(of_char c :: nat) - 48 \<le> 9" by linarith
  have v: "digits_value cs < 10 ^ length cs" using Cons by simp
  have "(of_char c - 48) * 10 ^ length cs + digits_value cs
          < (of_char c - 48) * 10 ^ length cs + 10 ^ length cs"
    using v by simp
  also have "\<dots> = Suc (of_char c - 48) * 10 ^ length cs" by simp
  also have "\<dots> \<le> 10 * 10 ^ length cs"
    using d by (intro mult_le_mono1) simp
  finally show ?case by simp
qed

lemma leading_digit_decides:
  fixes a b :: nat
  assumes "a < b" "v < P"
  shows "a * P + v < b * P + u"
proof -
  have "a * P + v < a * P + P" using assms(2) by simp
  also have "\<dots> = Suc a * P" by simp
  also have "\<dots> \<le> b * P" using assms(1) by (intro mult_le_mono1) simp
  also have "\<dots> \<le> b * P + u" by simp
  finally show ?thesis .
qed

lemma str_gt_digits:
  assumes "length s = length t" "list_all is_digit s" "list_all is_digit t"
  shows "str_gt s t \<longleftrightarrow> digits_value t < digits_value s"
  using assms
proof (induction s t rule: list_induct2)
  case Nil
  then show ?case by simp
next
  case (Cons x xs y ys)
  let ?P = "10 ^ length xs :: nat"
  have len: "length ys = length xs" using Cons.hyps by simp
  have dx: "48 \<le> (of_char x :: nat)"
    using Cons.prems by (simp add: is_digit_def)
  have dy: "48 \<le> (of_char y :: nat)"
    using Cons.prems by (simp add: is_digit_def)
  have vx: "digits_value xs < ?P" using Cons.prems digits_value_bound[of xs] by simp
  have vy: "digits_value ys < ?P" using Cons.prems digits_value_bound[of ys] len by simp
  have IH: "str_gt xs ys \<longleftrightarrow> digits_value ys < digits_value xs"
    using Cons by simp
  consider (gt) "(of_char y :: nat) < of_char x" | (eq) "x = y"
    | (lt) "(of_char x :: nat) < of_char y"
    using of_char_eq_iff[of x y, where ?'a = nat] by linarith
  then show ?case
  proof cases
    case gt
    then have "(of_char y :: nat) - 48 < of_char x - 48" using dy by linarith
    from leading_digit_decides[OF this vy, of "digits_value xs"]
    show ?thesis using gt len by simp
  next
    case eq
    then show ?thesis using IH len by simp
  next
    case lt
    then have "(of_char x :: nat) - 48 < of_char y - 48" using dx by linarith
    from leading_digit_decides[OF this vx, of "digits_value ys"]
    have "digits_value (x # xs) < digits_value (y # ys)" using len by simp
    moreover have "\<not> str_gt (x # xs) (y # ys)" using lt by auto
    ultimately show ?thesis by simp
  qed
qed

lemma py_gt_numeric:
  assumes "(is_number a \<and> is_number b) \<or> (digits_of_length n a \<and> digits_of_length n b)"
  shows "py_gt a b = Inr (numeric b < numeric a)"
proof (cases a; cases b)
  fix s t assume ab: "a = JStr s" "b = JStr t"
  then have "length s = length t" "list_all is_digit s" "list_all is_digit t"
    using assms by (auto simp: is_number_def digits_of_length_def)
  then show ?thesis using ab str_gt_digits[of s t] by (simp add: py_gt_def numeric_def)
qed (use assms in \<open>auto simp: py_gt_def numeric_def is_number_def digits_of_length_def\<close>)

lemma max_loop_numeric:
  assumes "\<forall>x \<in> set (best # xs). \<forall>y \<in> set (best # xs).
             py_gt (key x) (key y) = Inr (numeric (key y) < numeric (key x))"
  shows "\<exists>m \<in> set (best # xs). max_loop key best xs = Inr m
           \<and> (\<forall>x \<in> set (best # xs). numeric (key x) \<le> numeric (key m))"
  using assms
proof (induction xs arbitrary: best)
  case Nil
  then show ?case by simp
next
  case (Cons y ys)
  let ?b = "if numeric (key best) < numeric (key y) then y else best"
  have gt: "py_gt (key y) (key best) = Inr (numeric (key best) < numeric (key y))"
    using Cons.prems by simp
  have step: "max_loop key best (y # ys) = max_loop key ?b ys"
    by (simp add: gt)
  have sub: "set (?b # ys) \<subseteq> set (best # y # ys)" by auto
  have "\<forall>x \<in> set (?b # ys). \<forall>z \<in> set (?b # ys).
             py_gt (key x) (key z) = Inr (numeric (key z) < numeric (key x))"
    using Cons.prems sub by blast
  from Cons.IH[OF this] obtain m where m: "m \<in> set (?b # ys)"
      "max_loop key ?b ys = Inr m" "\<forall>x \<in> set (?b # ys). numeric (key x) \<le> numeric (key m)"
    by blast
  have bm: "numeric (key ?b) \<le> numeric (key m)" using m(3) by simp
  have "numeric (key best) \<le> numeric (key ?b)" "numeric (key y) \<le> numeric (key ?b)"
    by simp_all
  then have "numeric (key best) \<le> numeric (key m)" "numeric (key y) \<le> numeric (key m)"
    using bm by linarith+
  moreover have "\<forall>x \<in> set ys. numeric (key x) \<le> numeric (key m)" using m(3) by simp
  moreover have "m \<in> set (best # y # ys)" using m(1) sub by blast
  ultimately show ?case using m(2) step by auto
qed

lemma py_max_empty: "py_max key [] = Inl (ValueError ''max() arg is an empty sequence'')"
  by (simp add: py_max_def)

lemma py_max_numeric:
  assumes "xs \<noteq> []"
    and "list_all (\<lambda>x. is_number (key x)) xs \<or> list_all (\<lambda>x. digits_of_length n (key x)) xs"
  shows "\<exists>m \<in> set xs. py_max key xs = Inr m
           \<and> (\<forall>x \<in> set xs. numeric (key x) \<le> numeric (key m))"
proof -
  obtain y ys where xs: "xs = y # ys" using assms(1) by (cases xs) auto
  have "\<forall>x \<in> set xs. \<forall>z \<in> set xs.
             py_gt (key x) (key z) = Inr (numeric (key z) < numeric (key x))"
  proof (intro ballI)
    fix x z assume "x \<in> set xs" "z \<in> set xs"
    then have "(is_number (key x) \<and> is_number (key z))
        \<or> (digits_of_length n (key x) \<and> digits_of_length n (key z))"
      using assms(2) by (auto simp: list_all_iff)
    then show "py_gt (key x) (key z) = Inr (numeric (key z) < numeric (key x))"
      by (rule py_gt_numeric)
  qed
  from max_loop_numeric[of y ys key] this xs show ?thesis
    by (simp add: py_max_def)
qed

text \<open>
  C8, as stated, fails twice. For a video without an audio format the module has no error
  of its own: the call ends with the \<^verbatim>\<open>ValueError\<close> of \<^verbatim>\<open>max\<close> on an empty iterable,
  which is not the \<^verbatim>\<open>BadResponseError\<close> the command handler catches. And for the audio
  bitrates "130000", "160000" and "70000", sent as strings, \<^verbatim>\<open>max\<close> compares strings and
  the URL requested is that of itag 250, the format with bitrate "70000", not that of the
  maximum bitrate "160000".
\<close>

theorem get_audio_url_counterexample:
  "get_audio_url (sample_upstream []) ''https://inv.example'' video_only fresh_world
     = (Inl (ValueError ''max() arg is an empty sequence''), fresh_world)
   \<and> get_audio_url (sample_upstream []) ''https://inv.example'' (sample_video None) fresh_world
     = (Inr ''https://cdn.example/250'',
        fresh_world\<lparr>requests := [audio_request ''https://inv.example'' ''abc123'' ''250'']\<rparr>)
   \<and> map (\<lambda>frmt. (bitrate frmt, itag frmt)) (audio_formats (sample_video None))
     = [(JStr ''130000'', ''140''), (JStr ''160000'', ''251''), (JStr ''70000'', ''250'')]"
  by (simp add: get_audio_url_def audio_formats_def startswith_def py_max_def py_gt_def
        video_only_def sample_video_def sample_upstream_def ok_def send_def fresh_world_def)

text \<open>
  C8, amended. Without an audio format, \<open>get_audio_url\<close> fails with the \<^verbatim>\<open>ValueError\<close>
  of \<^verbatim>\<open>max\<close> and sends nothing. With at least one, when the bitrates of the audio formats
  are all JSON numbers, or all strings of decimal digits of one length \<open>n\<close>, it picks a
  format \<open>best\<close> whose type starts with \<^verbatim>\<open>audio/\<close> and whose bitrate is, as a number,
  maximal among those formats, sends the \<^verbatim>\<open>latest_version\<close> request for the video id and
  the itag of \<open>best\<close>, and returns the URL of the response, or fails with
  \<^verbatim>\<open>BadResponseError\<close> when the response is not ok. Nothing is said about digit strings
  of different lengths.
\<close>

theorem get_audio_url_best_audio:
  "(audio_formats video = [] \<longrightarrow>
      get_audio_url up host_url video w
        = (Inl (ValueError ''max() arg is an empty sequence''), w))
   \<and> (audio_formats video \<noteq> []
        \<and> (list_all (\<lambda>frmt. is_number (bitrate frmt)) (audio_formats video)
           \<or> list_all (\<lambda>frmt. digits_of_length n (bitrate frmt)) (audio_formats video)) \<longrightarrow>
      (\<exists>best \<in> set (adaptiveFormats video).
         startswith (format_type best) ''audio/''
       \<and> (\<forall>frmt \<in> set (adaptiveFormats video).
             startswith (format_type frmt) ''audio/'' \<longrightarrow>
               numeric (bitrate frmt) \<le> numeric (bitrate best))
       \<and> get_audio_url up host_url video w
           = (if ok (latest_version up (length (requests w)) (videoId video) (itag best))
              then Inr (url (latest_version up (length (requests w)) (videoId video) (itag best)))
              else Inl (BadResponseError (''Error fetching audio: ''
                     @ reason (latest_version up (length (requests w)) (videoId video) (itag best)))),
              w\<lparr>requests := requests w
                   @ [audio_request host_url (videoId video) (itag best)]\<rparr>)))"
proof (intro conjI impI)
  assume "audio_formats video = []"
  then show "get_audio_url up host_url video w
        = (Inl (ValueError ''max() arg is an empty sequence''), w)"
    by (simp add: get_audio_url_def py_max_empty)
next
  assume a: "audio_formats video \<noteq> []
        \<and> (list_all (\<lambda>frmt. is_number (bitrate frmt)) (audio_formats video)
           \<or> list_all (\<lambda>frmt. digits_of_length n (bitrate frmt)) (audio_formats video))"
  from py_max_numeric[of "audio_formats video" bitrate n] a
  obtain best where best: "best \<in> set (audio_formats video)"
      "py_max bitrate (audio_formats video) = Inr best"
      "\<forall>x \<in> set (audio_formats video). numeric (bitrate x) \<le> numeric (bitrate best)"
    by blast
  have "best \<in> set (adaptiveFormats video)" "startswith (format_type best) ''audio/''"
    using best(1) by (simp_all add: audio_formats_def)
  moreover have "\<forall>frmt \<in> set (adaptiveFormats video).
             startswith (format_type frmt) ''audio/'' \<longrightarrow>
               numeric (bitrate frmt) \<le> numeric (bitrate best)"
    using best(3) by (simp add: audio_formats_def)
  moreover have "get_audio_url up host_url video w
           = (if ok (latest_version up (length (requests w)) (videoId video) (itag best))
              then Inr (url (latest_version up (length (requests w)) (videoId video) (itag best)))
              else Inl (BadResponseError (''Error fetching audio: ''
                     @ reason (latest_version up (length (requests w)) (videoId video) (itag best)))),
              w\<lparr>requests := requests w
                   @ [audio_request host_url (videoId video) (itag best)]\<rparr>)"
    by (simp add: get_audio_url_def best(2) Let_def send_def)
  ultimately show "\<exists>best \<in> set (adaptiveFormats video).
         startswith (format_type best) ''audio/''
       \<and> (\<forall>frmt \<in> set (adaptiveFormats video).
             startswith (format_type frmt) ''audio/'' \<longrightarrow>
               numeric (bitrate frmt) \<le> numeric (bitrate best))
       \<and> get_audio_url up host_url video w
           = (if ok (latest_version up (length (requests w)) (videoId video) (itag best))
              then Inr (url (latest_version up (length (requests w)) (videoId video) (itag best)))
              else Inl (BadResponseError (''Error fetching audio: ''
                     @ reason (latest_version up (length (requests w)) (videoId video) (itag best)))),
              w\<lparr>requests := requests w
                   @ [audio_request host_url (videoId video) (itag best)]\<rparr>)"
    by blast
qed

theorem get_audio_url_best_audio_witness:
  "get_audio_url (sample_upstream []) ''https://inv.example'' video_only fresh_world
       = (Inl (ValueError ''max() arg is an empty sequence''), fresh_world)
   \<and> get_audio_url (sample_upstream []) ''https://inv.example'' two_audio_video fresh_world
       = (Inr ''https://cdn.example/251'',
          fresh_world\<lparr>requests := [audio_request ''https://inv.example'' ''abc123'' ''251'']\<rparr>)
   \<and> get_audio_url (sample_upstream []) ''https://inv.example'' numeric_video fresh_world
       = (Inr ''https://cdn.example/251'',
          fresh_world\<lparr>requests := [audio_request ''https://inv.example'' ''abc123'' ''251'']\<rparr>)"
proof -
  let ?up = "sample_upstream []"
  let ?h = "''https://inv.example''"
  have a: "audio_formats video_only = []"
    by (simp add: audio_formats_def video_only_def startswith_def)
  have r1: "get_audio_url ?up ?h video_only fresh_world
       = (Inl (ValueError ''max() arg is an empty sequence''), fresh_world)"
    using get_audio_url_best_audio [of video_only ?up ?h fresh_world] a
    by blast
  have b: "audio_formats two_audio_video \<noteq> []
        \<and> (list_all (\<lambda>frmt. is_number (bitrate frmt)) (audio_formats two_audio_video)
           \<or> list_all (\<lambda>frmt. digits_of_length 6 (bitrate frmt)) (audio_formats two_audio_video))"
    by (simp add: audio_formats_def two_audio_video_def startswith_def digits_of_length_def
          is_digit_def)
  obtain best where best: "best \<in> set (adaptiveFormats two_audio_video)"
      "startswith (format_type best) ''audio/''"
      "\<forall>frmt \<in> set (adaptiveFormats two_audio_video).
             startswith (format_type frmt) ''audio/'' \<longrightarrow>
               numeric (bitrate frmt) \<le> numeric (bitrate best)"
      "get_audio_url ?up ?h two_audio_video fresh_world
           = (if ok (latest_version ?up (length (requests fresh_world))
                       (videoId two_audio_video) (itag best))
              then Inr (url (latest_version ?up (length (requests fresh_world))
                       (videoId two_audio_video) (itag best)))
              else Inl (BadResponseError (''Error fetching audio: ''
                     @ reason (latest_version ?up (length (requests fresh_world))
                       (videoId two_audio_video) (itag best)))),
              fresh_world\<lparr>requests := requests fresh_world
                   @ [audio_request ?h (videoId two_audio_video) (itag best)]\<rparr>)"
    using get_audio_url_best_audio [of two_audio_video ?up ?h fresh_world 6] b
    by blast
  have tag: "itag best = ''251''"
    using best(1,2,3)
    by (auto simp: two_audio_video_def startswith_def numeric_def)
  have r2: "get_audio_url ?up ?h two_audio_video fresh_world
       = (Inr ''https://cdn.example/251'',
          fresh_world\<lparr>requests := [audio_request ?h ''abc123'' ''251'']\<rparr>)"
    unfolding best(4) tag
    by (simp add: sample_upstream_def two_audio_video_def ok_def fresh_world_def)
  have c: "audio_formats numeric_video \<noteq> []
        \<and> (list_all (\<lambda>frmt. is_number (bitrate frmt)) (audio_formats numeric_video)
           \<or> list_all (\<lambda>frmt. digits_of_length 0 (bitrate frmt)) (audio_formats numeric_video))"
    by (simp add: audio_formats_def numeric_video_def startswith_def is_number_def)
  obtain best' where best': "best' \<in> set (adaptiveFormats numeric_video)"
      "startswith (format_type best') ''audio/''"
      "\<forall>frmt \<in> set (adaptiveFormats numeric_video).
             startswith (format_type frmt) ''audio/'' \<longrightarrow>
               numeric (bitrate frmt) \<le> numeric (bitrate best')"
      "get_audio_url ?up ?h numeric_video fresh_world
           = (if ok (latest_version ?up (length (requests fresh_world))
                       (videoId numeric_video) (itag best'))
              then Inr (url (latest_version ?up (length (requests fresh_world))
                       (videoId numeric_video) (itag best')))
              else Inl (BadResponseError (''Error fetching audio: ''
                     @ reason (latest_version ?up (length (requests fresh_world))
                       (videoId numeric_video) (itag best')))),
              fresh_world\<lparr>requests := requests fresh_world
                   @ [audio_request ?h (videoId numeric_video) (itag best')]\<rparr>)"
    using get_audio_url_best_audio [of numeric_video ?up ?h fresh_world 0] c
    by blast
  have tag': "itag best' = ''251''"
    using best'(1,2,3)
    by (auto simp: numeric_video_def startswith_def numeric_def)
  have r3: "get_audio_url ?up ?h numeric_video fresh_world
       = (Inr ''https://cdn.example/251'',
          fresh_world\<lparr>requests := [audio_request ?h ''abc123'' ''251'']\<rparr>)"
    unfolding best'(4) tag'
    by (simp add: sample_upstream_def numeric_video_def ok_def fresh_world_def)
  show ?thesis using r1 r2 r3 by simp
qed

subsection \<open>update_spotify_token\<close>

text \<open>
  Which calls send the token exchange: those with no expiry stored, and those whose stored
  expiry is at least 15 minutes after the clock reading.
\<close>

lemma update_spotify_token_requests:
  "requests (snd (update_spotify_token up cfg w)) =
     (case spotify_token_expires_at w of
        None \<Rightarrow> requests w @ [token_request cfg]
      | Some t \<Rightarrow>
          (if t < now up (clock_reads w) + minutes 15 then requests w
           else requests w @ [token_request cfg]))"
  by (simp add: update_spotify_token_def Let_def send_def split: option.splits)

text \<open>
  C1. The claim: the token exchange is sent if and only if the token is absent or its
  expiry lies within 15 minutes of the current time, and a valid token outside that margin
  is reused. The code does the opposite, because the guard returns early on
  \<^verbatim>\<open>expires_at < now + 15 min\<close>. With a token that is valid for another 60 minutes the
  exchange is sent; with a token that expired a second ago nothing is sent; and two calls
  in a row from an empty cache send two exchanges, the second one while the token just
  granted is valid for an hour.
\<close>

theorem update_spotify_token_guard_inverted:
  "requests (snd (update_spotify_token (sample_upstream []) sample_settings
       (fresh_world\<lparr>spotify_token := Some ''tok'',
          spotify_token_expires_at := Some (now (sample_upstream []) 0 + minutes 60)\<rparr>)))
     = [token_request sample_settings]
   \<and> requests (snd (update_spotify_token (sample_upstream []) sample_settings
       (fresh_world\<lparr>spotify_token := Some ''old'',
          spotify_token_expires_at := Some (now (sample_upstream []) 0 - seconds 1)\<rparr>)))
     = []
   \<and> requests (snd (update_spotify_token (sample_upstream []) sample_settings
       (snd (update_spotify_token (sample_upstream []) sample_settings fresh_world))))
     = [token_request sample_settings, token_request sample_settings]"
  by (simp add: update_spotify_token_requests update_spotify_token_def Let_def send_def
        fresh_world_def sample_upstream_def minutes_def seconds_def)

subsection \<open>spotify_to_youtube_id\<close>

text \<open>
  C9, as stated, fails for a track with two artists: the request sent to the search
  endpoint has the query "Song by A B", the names joined by a single space, where the
  claim has them separated by commas.
\<close>

theorem search_query_two_artists_counterexample:
  "requests (snd (spotify_to_youtube_id (sample_upstream [''A'', ''B'']) sample_settings
       ''https://inv.example'' ''7x9'' fresh_world))
     = [token_request sample_settings,
        track_request ''7x9'' (Some ''tok''),
        search_request ''https://inv.example'' ''Song by A B'']
   \<and> ''Song by A B'' \<noteq> ''Song by A, B''"
  by (simp add: spotify_to_youtube_id_def update_spotify_token_def Let_def send_def
        fresh_world_def sample_upstream_def search_for_def search_query_def ok_def)

text \<open>
  C9, amended. When the token update raises nothing and the track lookup answers with
  status 200, \<open>spotify_to_youtube_id\<close> sends the track lookup and then one search whose
  query is the track name, the word " by ", and the artist names separated by single
  spaces; for one artist that is "name by artist".
\<close>

theorem spotify_search_query:
  assumes "update_spotify_token up cfg w = (None, w1)"
    and "status (tracks up (length (requests w1)) track_id
            (case spotify_token w1 of None \<Rightarrow> ''None'' | Some t \<Rightarrow> t)) = 200"
    and "t = json (tracks up (length (requests w1)) track_id
            (case spotify_token w1 of None \<Rightarrow> ''None'' | Some t \<Rightarrow> t))"
  shows "requests (snd (spotify_to_youtube_id up cfg host_url track_id w))
           = requests w1 @ [track_request track_id (spotify_token w1),
                            search_request host_url (search_query t)]
       \<and> (\<forall>a. artists t = [a] \<longrightarrow> search_query t = name t @ '' by '' @ a)
       \<and> (\<forall>a b rest. artists t = a # b # rest \<longrightarrow>
            search_query t = name t @ '' by '' @ a @ '' '' @ join '' '' (b # rest))"
  using assms
  by (simp add: spotify_to_youtube_id_def Let_def send_def search_for_def search_query_def ok_def
        split: list.splits)

theorem spotify_search_query_witness:
  "requests (snd (spotify_to_youtube_id (sample_upstream [''Artist'']) sample_settings
       ''https://inv.example'' ''7x9'' fresh_world))
     = [token_request sample_settings,
        track_request ''7x9'' (Some ''tok''),
        search_request ''https://inv.example'' ''Song by Artist'']
   \<and> search_query \<lparr>name = ''Song'', artists = [''Artist'', ''Other'', ''Third'']\<rparr>
     = ''Song by Artist Other Third''"
proof -
  let ?w1 = "\<lparr>spotify_token = Some ''tok'',
              spotify_token_expires_at = Some (1700000000000000 + seconds 3600),
              requests = [token_request sample_settings], clock_reads = 1\<rparr>"
  have u: "update_spotify_token (sample_upstream [''Artist'']) sample_settings fresh_world
         = (None, ?w1)"
    by (simp add: update_spotify_token_def Let_def send_def fresh_world_def sample_upstream_def
          seconds_def)
  have s: "status (tracks (sample_upstream [''Artist'']) (length (requests ?w1)) ''7x9''
            (case spotify_token ?w1 of None \<Rightarrow> ''None'' | Some t \<Rightarrow> t)) = 200"
    by (simp add: sample_upstream_def)
  have t: "\<lparr>name = ''Song'', artists = [''Artist'']\<rparr>
        = json (tracks (sample_upstream [''Artist'']) (length (requests ?w1)) ''7x9''
            (case spotify_token ?w1 of None \<Rightarrow> ''None'' | Some t \<Rightarrow> t))"
    by (simp add: sample_upstream_def)
  have q: "search_query \<lparr>name = ''Song'', artists = [''Artist'', ''Other'', ''Third'']\<rparr>
     = ''Song by Artist Other Third''"
    by (simp add: search_query_def)
  show ?thesis
    using spotify_search_query[OF u s t, of "''https://inv.example''"] q
    by simp
qed

subsection \<open>The canonical watch pattern\<close>

text \<open>
  Every way \<open>INVIDIOUS_ID_RE\<close> can match an input \<open>p @ ''watch?v='' @ i\<close>, for a non-empty
  prefix \<open>p\<close> without a newline and a non-empty \<open>i\<close> of id characters, ends the input and
  captures \<open>i\<close>: the character before the group is \<open>=\<close>, which the group cannot contain.
\<close>

lemma unique_suffix:
  assumes "a @ c # x = b @ c # y" "c \<notin> set x" "c \<notin> set y"
  shows "x = y"
  using assms
  by (auto simp: append_eq_append_conv2 Cons_eq_append_conv append_eq_Cons_conv)


lemma id_char_not_special: "id_char c \<Longrightarrow> c \<noteq> CHR ''='' \<and> c \<noteq> CHR 0x0A"
  by (auto simp: id_char_def char_between_def)

lemma takeWhile_length_drop:
  assumes "n \<le> length (takeWhile P j)" "drop n j = []"
  shows "takeWhile P j = j \<and> n = length j"
proof -
  have "length (takeWhile P j) \<le> length j" by (rule length_takeWhile_le)
  moreover have "length j \<le> n" using assms(2) by simp
  ultimately have "length (takeWhile P j) = length j" "n = length j" using assms(1) by auto
  moreover have "takeWhile P j @ dropWhile P j = j" by simp
  ultimately show ?thesis by (metis append_eq_conv_conj takeWhile_dropWhile_id take_all order_refl)
qed

lemma id_tail_results:
  assumes "CHR 0x0A \<notin> set j"
  shows "set (backtrack (Seq (Group (Plus id_char)) EndOfString) (j, g)) =
           (if j \<noteq> [] \<and> (\<forall>c \<in> set j. id_char c) then {([], Some j)} else {})"
proof -
  have nl: "drop n j \<noteq> [CHR 0x0A]" for n
    using assms by (metis in_set_dropD list.set_intros(1))
  have all: "takeWhile id_char j = j \<longleftrightarrow> (\<forall>c \<in> set j. id_char c)"
    by (simp add: takeWhile_eq_all_conv)
  show ?thesis
  proof (cases "j \<noteq> [] \<and> (\<forall>c \<in> set j. id_char c)")
    case True
    then have tw: "takeWhile id_char j = j" using all by simp
    have e: "set (backtrack (Seq (Group (Plus id_char)) EndOfString) (j, g)) = {([], Some j)}"
    proof (rule set_eqI, rule iffI)
      fix r
      assume "r \<in> set (backtrack (Seq (Group (Plus id_char)) EndOfString) (j, g))"
      then obtain n where n: "1 \<le> n" "n \<le> length j"
          "r \<in> set (backtrack EndOfString (drop n j, Some (take (length j - length (drop n j)) j)))"
        by (auto simp: tw image_iff)
      then have "drop n j = []" using nl by (auto split: if_splits)
      then show "r \<in> {([], Some j)}" using n nl by (auto split: if_splits)
    next
      fix r :: mstate
      assume "r \<in> {([], Some j)}"
      then have r: "r = ([], Some j)" by simp
      have "1 \<le> length j" using True by (cases j) auto
      then show "r \<in> set (backtrack (Seq (Group (Plus id_char)) EndOfString) (j, g))"
        using r by (auto simp: tw image_iff intro!: bexI[of _ "length j"])
    qed
    show ?thesis by (subst e) (use True in simp)
  next
    case False
    have e: "set (backtrack (Seq (Group (Plus id_char)) EndOfString) (j, g)) = {}"
    proof (rule ccontr)
      assume "set (backtrack (Seq (Group (Plus id_char)) EndOfString) (j, g)) \<noteq> {}"
      then obtain r where "r \<in> set (backtrack (Seq (Group (Plus id_char)) EndOfString) (j, g))"
        by auto
      then obtain n where n: "1 \<le> n" "n \<le> length (takeWhile id_char j)"
          "r \<in> set (backtrack EndOfString (drop n j, Some (take (length j - length (drop n j)) j)))"
        by (auto simp: image_iff)
      then have d: "drop n j = []" using nl by (auto split: if_splits)
      from takeWhile_length_drop[OF n(2) d] have "takeWhile id_char j = j" "n = length j" by auto
      then have "j \<noteq> []" "\<forall>c \<in> set j. id_char c" using n(1) all by auto
      then show False using False by simp
    qed
    show ?thesis by (subst e) (use False in simp)
  qed
qed


lemma watch_tail_results:
  "backtrack (Seq (Lit ''watch?v='') r) (t, g) =
     (if take 8 t = ''watch?v='' then backtrack r (drop 8 t, g) else [])"
  by (simp add: eval_nat_numeral)

lemma set_concat_tries:
  "set (concat (map f (map h (rev [1..<Suc k])))) = (\<Union>n \<in> {1..k}. set (f (h n)))"
  by (simp only: set_concat set_map set_rev set_upt image_image
        atLeastLessThanSuc_atLeastAtMost)

lemma invidious_re_results:
  assumes "CHR 0x0A \<notin> set s"
  shows "set (backtrack INVIDIOUS_ID_RE (s, None)) =
     (\<Union>n \<in> {1..length s}.
        set (backtrack (Seq (Lit ''watch?v='') (Seq (Group (Plus id_char)) EndOfString))
               (drop n s, None)))"
proof -
  have tw: "takeWhile not_newline s = s"
    using assms by (auto simp: takeWhile_eq_all_conv not_newline_def)
  have "backtrack INVIDIOUS_ID_RE (s, None) =
      concat (map (backtrack (Seq (Lit ''watch?v='') (Seq (Group (Plus id_char)) EndOfString)))
         (map (\<lambda>n. (drop n s, None)) (rev [1..<Suc (length s)])))"
    by (simp only: INVIDIOUS_ID_RE_def cat.simps backtrack.simps tw)
  then show ?thesis by (simp only: set_concat_tries)
qed

lemma invidious_re_canonical:
  assumes "p \<noteq> []" "CHR 0x0A \<notin> set p" "i \<noteq> []" "\<forall>c \<in> set i. id_char c"
  shows "re_match INVIDIOUS_ID_RE (p @ ''watch?v='' @ i) = Some (Some i)"
proof -
  define s where "s = p @ ''watch?v='' @ i"
  let ?U = "Seq (Group (Plus id_char)) EndOfString"
  let ?T = "Seq (Lit ''watch?v='') ?U"
  let ?L = "backtrack INVIDIOUS_ID_RE (s, None)"
  have inl: "CHR 0x0A \<notin> set i" "CHR ''='' \<notin> set i"
    using assms(4) id_char_not_special by blast+
  have nl: "CHR 0x0A \<notin> set s" using assms(2) inl by (simp add: s_def)
  have L: "set ?L = (\<Union>n \<in> {1..length s}. set (backtrack ?T (drop n s, None)))"
    by (rule invidious_re_results[OF nl])
  have only: "r = ([], Some i)" if r: "r \<in> set ?L" for r
  proof -
    from r[unfolded L] obtain n where n: "r \<in> set (backtrack ?T (drop n s, None))"
      by blast
    define j where "j = drop 8 (drop n s)"
    have c: "r \<in> set (if take 8 (drop n s) = ''watch?v='' then backtrack ?U (j, None) else [])"
      using n by (simp only: watch_tail_results j_def)
    have w: "take 8 (drop n s) = ''watch?v=''"
    proof (rule ccontr)
      assume "take 8 (drop n s) \<noteq> ''watch?v=''"
      then have "r \<in> set []" using c by (simp only: if_False)
      then show False by simp
    qed
    have rj: "r \<in> set (backtrack ?U (j, None))"
      using c by (simp only: w if_True refl)
    have jnl: "CHR 0x0A \<notin> set j" using nl unfolding j_def by (meson in_set_dropD)
    have rj': "r \<in> (if j \<noteq> [] \<and> (\<forall>c \<in> set j. id_char c) then {([], Some j)} else {})"
      using rj by (simp only: id_tail_results[OF jnl])
    have j: "\<forall>c \<in> set j. id_char c" "r = ([], Some j)"
      using rj' by (auto split: if_splits)
    have jeq: "CHR ''='' \<notin> set j" using j(1) id_char_not_special by blast
    have "drop n s = ''watch?v='' @ j"
      unfolding j_def by (metis w append_take_drop_id)
    then have "s = take n s @ ''watch?v='' @ j"
      by (metis append_take_drop_id)
    then have "p @ ''watch?v='' @ i = take n s @ ''watch?v='' @ j"
      by (simp only: s_def[symmetric])
    then have "(p @ ''watch?v'') @ CHR ''='' # i = (take n s @ ''watch?v'') @ CHR ''='' # j"
      by simp
    then have "i = j" using inl(2) jeq by (rule unique_suffix)
    then show ?thesis using j(2) by simp
  qed
  have ex: "([], Some i) \<in> set ?L"
  proof -
    have "1 \<le> length p" using assms(1) by (cases p) auto
    then have m: "length p \<in> {1..length s}" by (simp add: s_def)
    have d: "drop (length p) s = ''watch?v='' @ i" by (simp add: s_def)
    have t8: "take 8 (''watch?v='' @ i) = ''watch?v=''" "drop 8 (''watch?v='' @ i) = i"
      by simp_all
    have u: "set (backtrack ?U (i, None)) = {([], Some i)}"
      by (subst id_tail_results[OF inl(1)]) (use assms(3,4) in simp)
    have "backtrack ?T (drop (length p) s, None) = backtrack ?U (i, None)"
      by (simp only: d watch_tail_results t8 if_True refl)
    then have "([], Some i) \<in> set (backtrack ?T (drop (length p) s, None))"
      using u by (simp only: singletonI)
    then show ?thesis unfolding L using m by blast
  qed
  then obtain x xs where xs: "?L = x # xs" by (cases ?L) auto
  then have "x = ([], Some i)" using only[of x] by simp
  then show ?thesis using xs by (simp add: re_match_def s_def)
qed

subsection \<open>to_invidious_id\<close>

text \<open>
  C5. \<open>to_invidious_id\<close> tries the three patterns in the order canonical watch URL,
  platform watch or short URL, third-party track URL, and the first that matches decides:
  a match of the first or second pattern returns its group with the world untouched (no
  request is sent, the token cache is not read); only when both fail and the third matches
  is \<open>spotify_to_youtube_id\<close> called; when none matches the result is \<open>None\<close>, not an
  exception. An input of the canonical form, a non-empty prefix without a newline followed
  by \<^verbatim>\<open>watch?v=abc123\<close>, resolves to \<^verbatim>\<open>abc123\<close> with the world untouched.
\<close>

theorem to_invidious_id_first_match_wins:
  "(\<forall>g. re_match INVIDIOUS_ID_RE u = Some g \<longrightarrow>
        to_invidious_id up cfg h u w = (Inr g, w))
   \<and> (\<forall>g. re_match INVIDIOUS_ID_RE u = None \<and> re_match YOUTUBE_ID_RE u = Some g \<longrightarrow>
        to_invidious_id up cfg h u w = (Inr g, w))
   \<and> (\<forall>t. re_match INVIDIOUS_ID_RE u = None \<and> re_match YOUTUBE_ID_RE u = None
          \<and> re_match SPOTIFY_ID_RE u = Some (Some t) \<longrightarrow>
        to_invidious_id up cfg h u w =
          (case spotify_to_youtube_id up cfg h t w of
             (Inl e, w') \<Rightarrow> (Inl e, w')
           | (Inr v, w') \<Rightarrow> (Inr (Some v), w')))
   \<and> (re_match INVIDIOUS_ID_RE u = None \<and> re_match YOUTUBE_ID_RE u = None
          \<and> re_match SPOTIFY_ID_RE u = None \<longrightarrow>
        to_invidious_id up cfg h u w = (Inr None, w))
   \<and> (p \<noteq> [] \<and> CHR 0x0A \<notin> set p \<longrightarrow>
        to_invidious_id up cfg h (p @ ''watch?v=abc123'') w = (Inr (Some ''abc123''), w))"
proof (intro conjI allI impI)
  fix g assume "re_match INVIDIOUS_ID_RE u = Some g"
  then show "to_invidious_id up cfg h u w = (Inr g, w)"
    by (simp add: to_invidious_id_def)
next
  fix g assume "re_match INVIDIOUS_ID_RE u = None \<and> re_match YOUTUBE_ID_RE u = Some g"
  then show "to_invidious_id up cfg h u w = (Inr g, w)"
    by (simp add: to_invidious_id_def)
next
  fix t assume "re_match INVIDIOUS_ID_RE u = None \<and> re_match YOUTUBE_ID_RE u = None
          \<and> re_match SPOTIFY_ID_RE u = Some (Some t)"
  then show "to_invidious_id up cfg h u w =
          (case spotify_to_youtube_id up cfg h t w of
             (Inl e, w') \<Rightarrow> (Inl e, w')
           | (Inr v, w') \<Rightarrow> (Inr (Some v), w'))"
    by (simp add: to_invidious_id_def)
next
  assume "re_match INVIDIOUS_ID_RE u = None \<and> re_match YOUTUBE_ID_RE u = None
          \<and> re_match SPOTIFY_ID_RE u = None"
  then show "to_invidious_id up cfg h u w = (Inr None, w)"
    by (simp add: to_invidious_id_def)
next
  assume p: "p \<noteq> [] \<and> CHR 0x0A \<notin> set p"
  have "\<forall>c \<in> set ''abc123''. id_char c"
    by (simp add: id_char_def char_between_def)
  then have "re_match INVIDIOUS_ID_RE (p @ ''watch?v='' @ ''abc123'') = Some (Some ''abc123'')"
    using p by (intro invidious_re_canonical) simp_all
  then show "to_invidious_id up cfg h (p @ ''watch?v=abc123'') w = (Inr (Some ''abc123''), w)"
    by (simp add: to_invidious_id_def)
qed

theorem to_invidious_id_first_match_wins_witness:
  "re_match YOUTUBE_ID_RE ''https://youtu.be/abc&x=watch?v=def'' = Some (Some ''abc'')
   \<and> to_invidious_id (sample_upstream [''Artist'']) sample_settings ''https://inv.example''
        ''https://youtu.be/abc&x=watch?v=def'' fresh_world
       = (Inr (Some ''def''), fresh_world)
   \<and> to_invidious_id (sample_upstream [''Artist'']) sample_settings ''https://inv.example''
        ''https://www.youtube.com/watch?v=dQw4w9WgXcQ&t=1'' fresh_world
       = (Inr (Some ''dQw4w9WgXcQ''), fresh_world)
   \<and> to_invidious_id (sample_upstream [''Artist'']) sample_settings ''https://inv.example''
        ''not a url'' fresh_world
       = (Inr None, fresh_world)
   \<and> to_invidious_id (sample_upstream [''Artist'']) sample_settings ''https://inv.example''
        ''https://inv.example/watch?v=abc123'' fresh_world
       = (Inr (Some ''abc123''), fresh_world)
   \<and> fst (to_invidious_id (sample_upstream [''Artist'']) sample_settings ''https://inv.example''
        ''https://open.spotify.com/track/7x9'' fresh_world)
       = Inr (Some ''yt1'')"
proof -
  let ?up = "sample_upstream [''Artist'']"
  let ?h = "''https://inv.example''"
  have a1: "re_match INVIDIOUS_ID_RE ''https://youtu.be/abc&x=watch?v=def'' = Some (Some ''def'')"
    by code_simp
  have a2: "re_match YOUTUBE_ID_RE ''https://youtu.be/abc&x=watch?v=def'' = Some (Some ''abc'')"
    by code_simp
  have b1: "re_match INVIDIOUS_ID_RE ''https://www.youtube.com/watch?v=dQw4w9WgXcQ&t=1'' = None"
    by code_simp
  have b2: "re_match YOUTUBE_ID_RE ''https://www.youtube.com/watch?v=dQw4w9WgXcQ&t=1''
      = Some (Some ''dQw4w9WgXcQ'')"
    by code_simp
  have c1: "re_match INVIDIOUS_ID_RE ''not a url'' = None" by code_simp
  have c2: "re_match YOUTUBE_ID_RE ''not a url'' = None" by code_simp
  have c3: "re_match SPOTIFY_ID_RE ''not a url'' = None" by code_simp
  have d1: "re_match INVIDIOUS_ID_RE ''https://open.spotify.com/track/7x9'' = None" by code_simp
  have d2: "re_match YOUTUBE_ID_RE ''https://open.spotify.com/track/7x9'' = None" by code_simp
  have d3: "re_match SPOTIFY_ID_RE ''https://open.spotify.com/track/7x9'' = Some (Some ''7x9'')"
    by code_simp
  have sp: "fst (spotify_to_youtube_id ?up sample_settings ?h ''7x9'' fresh_world) = Inr ''yt1''"
    by (simp add: spotify_to_youtube_id_def update_spotify_token_def Let_def send_def
        fresh_world_def sample_upstream_def search_for_def search_query_def ok_def)
  have r1: "to_invidious_id ?up sample_settings ?h ''https://youtu.be/abc&x=watch?v=def'' fresh_world
       = (Inr (Some ''def''), fresh_world)"
    using to_invidious_id_first_match_wins
      [of "''https://youtu.be/abc&x=watch?v=def''" ?up sample_settings ?h fresh_world] a1
    by blast
  have r2: "to_invidious_id ?up sample_settings ?h
        ''https://www.youtube.com/watch?v=dQw4w9WgXcQ&t=1'' fresh_world
       = (Inr (Some ''dQw4w9WgXcQ''), fresh_world)"
    using to_invidious_id_first_match_wins
      [of "''https://www.youtube.com/watch?v=dQw4w9WgXcQ&t=1''" ?up sample_settings ?h fresh_world]
      b1 b2
    by blast
  have r3: "to_invidious_id ?up sample_settings ?h ''not a url'' fresh_world
       = (Inr None, fresh_world)"
    using to_invidious_id_first_match_wins
      [of "''not a url''" ?up sample_settings ?h fresh_world] c1 c2 c3
    by blast
  have r4: "to_invidious_id ?up sample_settings ?h (''https://inv.example/'' @ ''watch?v=abc123'')
        fresh_world = (Inr (Some ''abc123''), fresh_world)"
    using to_invidious_id_first_match_wins
      [of _ ?up sample_settings ?h fresh_world "''https://inv.example/''"]
    by simp
  have r5: "to_invidious_id ?up sample_settings ?h ''https://open.spotify.com/track/7x9'' fresh_world
       = (case spotify_to_youtube_id ?up sample_settings ?h ''7x9'' fresh_world of
             (Inl e, w') \<Rightarrow> (Inl e, w')
           | (Inr v, w') \<Rightarrow> (Inr (Some v), w'))"
    using to_invidious_id_first_match_wins
      [of "''https://open.spotify.com/track/7x9''" ?up sample_settings ?h fresh_world] d1 d2 d3
    by blast
  have r5': "fst (to_invidious_id ?up sample_settings ?h ''https://open.spotify.com/track/7x9''
        fresh_world) = Inr (Some ''yt1'')"
    using sp unfolding r5
    by (cases "spotify_to_youtube_id ?up sample_settings ?h ''7x9'' fresh_world")
       (auto split: sum.splits)
  show ?thesis using a2 r1 r2 r3 r4 r5' by simp
qed

end
